theory Spec2Isabelle
  imports Main "HOL-Library.Sublist"
begin

section \<open>Strings\<close>

text \<open>
  Python \<open>str\<close> values are modelled as \<open>string\<close>: the UTF-8 bytes of the text.
  The separators the program looks for (\<open>/\<close>, \<open>.\<close>, the suffix \<open>.txt\<close>) are
  ASCII, and no byte of a multi-byte UTF-8 sequence is ASCII, so splitting and suffix
  tests agree on bytes and on code points.
\<close>

definition sep :: char where
  "sep = CHR ''/''"

definition extsep :: char where
  "extsep = CHR ''.''"

definition newline :: char where
  "newline = CHR 0x0A"

definition startswith :: "string \<Rightarrow> string \<Rightarrow> bool" where
  "startswith s p = prefix p s"

definition endswith :: "string \<Rightarrow> string \<Rightarrow> bool" where
  "endswith s p = suffix p s"

text \<open>\<open>s.rfind(c)\<close>: the index of the last occurrence of \<open>c\<close>, or \<open>-1\<close>.\<close>

definition rfind :: "char \<Rightarrow> string \<Rightarrow> int" where
  "rfind c s = int (length (dropWhile (\<lambda>x. x \<noteq> c) (rev s))) - 1"

text \<open>\<open>s.split(c)\<close>: the pieces between the occurrences of \<open>c\<close>, empty pieces kept.\<close>

fun split_str :: "char \<Rightarrow> string \<Rightarrow> string list" where
  "split_str c [] = [[]]"
| "split_str c (x # xs) =
     (if x = c then [] # split_str c xs
      else (case split_str c xs of [] \<Rightarrow> [[x]] | y # ys \<Rightarrow> (x # y) # ys))"

text \<open>\<open>c.join(xs)\<close>.\<close>

fun join_str :: "char \<Rightarrow> string list \<Rightarrow> string" where
  "join_str c [] = []"
| "join_str c [x] = x"
| "join_str c (x # y # ys) = x @ c # join_str c (y # ys)"

text \<open>\<open>s.rstrip(c)\<close> for a single character \<open>c\<close>.\<close>

definition rstrip :: "char \<Rightarrow> string \<Rightarrow> string" where
  "rstrip c s = rev (dropWhile (\<lambda>x. x = c) (rev s))"

section \<open>The path functions of \<open>posixpath\<close>\<close>

text \<open>
  The program calls \<open>os.path\<close> and runs wherever Python does; the model takes the
  POSIX flavour, and the functions below follow CPython's \<open>posixpath\<close> module line by
  line. The current working directory, which \<open>abspath\<close> reads when a path is
  relative, is a parameter.
\<close>

datatype error =
    ValueError
  | FileNotFoundError
  | FileExistsError
  | NotADirectoryError
  | IsADirectoryError
  | ShutilError
  | PermissionError

definition isabs :: "string \<Rightarrow> bool" where
  "isabs s = startswith s [sep]"

text \<open>\<open>basename(p)\<close>: \<open>i = p.rfind('/') + 1; return p[i:]\<close>.\<close>

definition basename :: "string \<Rightarrow> string" where
  "basename p = drop (nat (rfind sep p + 1)) p"

text \<open>
  \<open>dirname(p)\<close>: \<open>head = p[:i]\<close>, and trailing slashes of \<open>head\<close> are stripped unless
  \<open>head\<close> is made of slashes only.
\<close>

definition dirname :: "string \<Rightarrow> string" where
  "dirname p =
     (let head = take (nat (rfind sep p + 1)) p
      in if head \<noteq> [] \<and> head \<noteq> replicate (length head) sep then rstrip sep head else head)"

text \<open>
  \<open>splitext(p)\<close>: split at the last dot when it stands after the last slash and some
  character between that slash and the dot is not a dot (leading dots of a name do not
  start an extension).
\<close>

definition splitext :: "string \<Rightarrow> string \<times> string" where
  "splitext p =
     (let sepIndex = rfind sep p;
          dotIndex = rfind extsep p
      in if dotIndex > sepIndex \<and>
            (\<exists>i \<in> set [nat (sepIndex + 1) ..< nat dotIndex]. p ! i \<noteq> extsep)
         then (take (nat dotIndex) p, drop (nat dotIndex) p)
         else (p, []))"

text \<open>
  \<open>join(a, *p)\<close>: a component that starts with a slash replaces what was joined before
  it; otherwise it is appended, after a slash unless the path is empty or ends in one.
\<close>

definition join_step :: "string \<Rightarrow> string \<Rightarrow> string" where
  "join_step path b =
     (if startswith b [sep] then b
      else if path = [] \<or> endswith path [sep] then path @ b
      else path @ sep # b)"

definition join :: "string \<Rightarrow> string list \<Rightarrow> string" where
  "join a p = foldl join_step a p"

text \<open>
  The loop of \<open>normpath\<close> over the components: empty components and \<open>.\<close> are dropped,
  \<open>..\<close> removes the component before it; at the start of a relative path, or after
  another \<open>..\<close>, it is kept; at the root of an absolute path it is dropped.
\<close>

fun normpath_loop :: "bool \<Rightarrow> string list \<Rightarrow> string list \<Rightarrow> string list" where
  "normpath_loop initial_slashes new_comps [] = new_comps"
| "normpath_loop initial_slashes new_comps (cmp # comps) =
     (if cmp = [] \<or> cmp = ''.'' then normpath_loop initial_slashes new_comps comps
      else if cmp \<noteq> ''..'' \<or> (\<not> initial_slashes \<and> new_comps = [])
              \<or> (new_comps \<noteq> [] \<and> last new_comps = ''..'')
        then normpath_loop initial_slashes (new_comps @ [cmp]) comps
      else if new_comps \<noteq> [] then normpath_loop initial_slashes (butlast new_comps) comps
      else normpath_loop initial_slashes new_comps comps)"

definition normpath :: "string \<Rightarrow> string" where
  "normpath path =
     (if path = [] then ''.''
      else
        let initial_slashes :: nat =
              (if startswith path [sep]
               then (if startswith path [sep, sep] \<and> \<not> startswith path [sep, sep, sep]
                     then 2 else 1)
               else 0);
            comps = normpath_loop (initial_slashes \<noteq> 0) [] (split_str sep path);
            path' = replicate initial_slashes sep @ join_str sep comps
        in if path' = [] then ''.'' else path')"

definition abspath :: "string \<Rightarrow> string \<Rightarrow> string" where
  "abspath cwd path = normpath (if isabs path then path else join cwd [path])"

text \<open>
  \<open>relpath(path, start)\<close>: \<open>ValueError\<close> on the empty path; otherwise the components
  of the two absolute paths are compared, one \<open>..\<close> is emitted for every component of
  \<open>start\<close> after the common prefix, followed by the rest of \<open>path\<close>.
\<close>

definition path_list :: "string \<Rightarrow> string \<Rightarrow> string list" where
  "path_list cwd p = filter (\<lambda>x. x \<noteq> []) (split_str sep (abspath cwd p))"

definition relpath :: "string \<Rightarrow> string \<Rightarrow> string \<Rightarrow> error + string" where
  "relpath cwd path start =
     (if path = [] then Inl ValueError
      else
        let start_list = path_list cwd start;
            path_list = path_list cwd path;
            i = length (longest_common_prefix start_list path_list);
            rel_list = replicate (length start_list - i) ''..'' @ drop i path_list
        in if rel_list = [] then Inr ''.'' else Inr (join_str sep rel_list))"

section \<open>The filesystem\<close>

text \<open>
  The filesystem is the environment of the program, not part of it. It is modelled as a
  tree without symbolic links: a map from the list of components of an absolute,
  normalised path to the node stored there. The root directory is the empty list and
  always exists. A path string is resolved lexically, as \<open>abspath\<close> does.
\<close>

datatype node = File string | Dir

type_synonym filesystem = "string list \<rightharpoonup> node"

definition resolve :: "string \<Rightarrow> string \<Rightarrow> string list" where
  "resolve cwd p = path_list cwd p"

definition is_file :: "node option \<Rightarrow> bool" where
  "is_file n = (case n of Some (File c) \<Rightarrow> True | _ \<Rightarrow> False)"

definition dir_at :: "filesystem \<Rightarrow> string list \<Rightarrow> bool" where
  "dir_at fs k = (k = [] \<or> fs k = Some Dir)"

text \<open>\<open>os.path.exists\<close> and \<open>os.path.isdir\<close>.\<close>

definition path_exists :: "string \<Rightarrow> filesystem \<Rightarrow> string \<Rightarrow> bool" where
  "path_exists cwd fs p = (p \<noteq> [] \<and> (resolve cwd p = [] \<or> fs (resolve cwd p) \<noteq> None))"

definition path_isdir :: "string \<Rightarrow> filesystem \<Rightarrow> string \<Rightarrow> bool" where
  "path_isdir cwd fs p = (p \<noteq> [] \<and> dir_at fs (resolve cwd p))"

text \<open>
  \<open>os.makedirs(name, exist_ok=True)\<close>: every directory on the way to \<open>name\<close> is
  created; an existing directory is left as it is; a regular file at \<open>name\<close> or on
  the way to it is an error, raised before anything is created.
\<close>

definition makedirs :: "string \<Rightarrow> filesystem \<Rightarrow> string \<Rightarrow> error + filesystem" where
  "makedirs cwd fs name =
     (if name = [] then Inl FileNotFoundError
      else
        let k = resolve cwd name
        in if \<exists>p \<in> set (prefixes k). is_file (fs p)
           then Inl (if is_file (fs k) then FileExistsError else NotADirectoryError)
           else Inr (\<lambda>q. if q \<noteq> [] \<and> prefix q k then Some Dir else fs q))"

text \<open>
  \<open>open(p, 'w')\<close> followed by \<open>f.write(content)\<close>: the parent must be a directory and
  \<open>p\<close> must not be one; the file is created or replaced.
\<close>

definition write_file :: "string \<Rightarrow> filesystem \<Rightarrow> string \<Rightarrow> string \<Rightarrow> error + filesystem" where
  "write_file cwd fs p content =
     (if p = [] then Inl FileNotFoundError
      else
        let k = resolve cwd p
        in if k = [] then Inl IsADirectoryError
           else if \<not> dir_at fs (butlast k)
             then Inl (if is_file (fs (butlast k)) then NotADirectoryError else FileNotFoundError)
           else if fs k = Some Dir then Inl IsADirectoryError
           else Inr (fs(k \<mapsto> File content)))"

text \<open>\<open>os.remove\<close>: removes a regular file.\<close>

definition os_remove :: "string \<Rightarrow> filesystem \<Rightarrow> string \<Rightarrow> error + filesystem" where
  "os_remove cwd fs p =
     (if p = [] then Inl FileNotFoundError
      else
        let k = resolve cwd p
        in if k = [] then Inl IsADirectoryError
           else (case fs k of
                   None \<Rightarrow> Inl FileNotFoundError
                 | Some Dir \<Rightarrow> Inl IsADirectoryError
                 | Some (File c) \<Rightarrow> Inr (fs(k := None))))"

text \<open>
  \<open>shutil.rmtree\<close>: removes a directory and everything below it. The second component
  is the filesystem it leaves: removing the root empties it and then fails.
\<close>

definition rmtree :: "string \<Rightarrow> filesystem \<Rightarrow> string \<Rightarrow> error option \<times> filesystem" where
  "rmtree cwd fs p =
     (if p = [] then (Some FileNotFoundError, fs)
      else
        let k = resolve cwd p
        in if k = [] then (Some PermissionError, Map.empty)
           else (case fs k of
                   None \<Rightarrow> (Some FileNotFoundError, fs)
                 | Some (File c) \<Rightarrow> (Some NotADirectoryError, fs)
                 | Some Dir \<Rightarrow> (None, (\<lambda>q. if prefix k q then None else fs q))))"

text \<open>
  \<open>os.rename(src, dst)\<close> on resolved paths, with the fall-back of \<open>shutil.move\<close>
  (copy and delete) folded in: on one filesystem the fall-back fails where the rename
  did, except that it reports a regular file in the way of a directory as
  \<open>FileExistsError\<close> and a destination inside the source as \<open>shutil.Error\<close>.
\<close>

definition rename_node :: "filesystem \<Rightarrow> string list \<Rightarrow> string list \<Rightarrow> error + filesystem" where
  "rename_node fs ks kd =
     (if ks = [] \<or> kd = [] then Inl PermissionError
      else (case fs ks of
        None \<Rightarrow> Inl FileNotFoundError
      | Some (File c) \<Rightarrow>
          if \<not> dir_at fs (butlast kd)
            then Inl (if is_file (fs (butlast kd)) then NotADirectoryError else FileNotFoundError)
          else if fs kd = Some Dir then Inl IsADirectoryError
          else Inr ((fs(ks := None))(kd \<mapsto> File c))
      | Some Dir \<Rightarrow>
          if ks = kd then Inr fs
          else if prefix ks kd then Inl ShutilError
          else if \<not> dir_at fs (butlast kd)
            then Inl (if is_file (fs (butlast kd)) then NotADirectoryError else FileNotFoundError)
          else if fs kd \<noteq> None then Inl FileExistsError
          else Inr (\<lambda>q. if prefix kd q then fs (ks @ drop (length kd) q)
                         else if prefix ks q then None else fs q)))"

text \<open>
  \<open>shutil.move(src, dst)\<close>: when \<open>dst\<close> is an existing directory the source is moved
  into it, under its own base name, unless something of that name is there already;
  otherwise the source is renamed to \<open>dst\<close>, replacing a regular file there.
\<close>

definition shutil_move :: "string \<Rightarrow> filesystem \<Rightarrow> string \<Rightarrow> string \<Rightarrow> error + filesystem" where
  "shutil_move cwd fs src dst =
     (if src = [] \<or> dst = [] then Inl FileNotFoundError
      else if path_isdir cwd fs dst then
        (if resolve cwd src = resolve cwd dst then Inr fs
         else
           let real_dst = join dst [basename (rstrip sep src)]
           in if path_exists cwd fs real_dst then Inl ShutilError
              else rename_node fs (resolve cwd src) (resolve cwd real_dst))
      else rename_node fs (resolve cwd src) (resolve cwd dst))"

section \<open>The clock\<close>

text \<open>
  \<open>datetime.now()\<close> is read from the platform. \<open>strftime("%Y-%m-%d %H:%M")\<close> prints
  the year on four digits and month, day, hour and minute on two.
\<close>

record datetime =
  year :: nat
  month :: nat
  day :: nat
  hour :: nat
  minute :: nat

definition digit :: "nat \<Rightarrow> char" where
  "digit d = char_of (48 + d mod 10)"

definition digits2 :: "nat \<Rightarrow> string" where
  "digits2 n = [digit (n div 10), digit n]"

definition digits4 :: "nat \<Rightarrow> string" where
  "digits4 n = [digit (n div 1000), digit (n div 100), digit (n div 10), digit n]"

definition strftime_Ymd_HM :: "datetime \<Rightarrow> string" where
  "strftime_Ymd_HM t =
     digits4 (year t) @ ''-'' @ digits2 (month t) @ ''-'' @ digits2 (day t) @ '' ''
       @ digits2 (hour t) @ '':'' @ digits2 (minute t)"

section \<open>The event handler\<close>

text \<open>
  What a handler reads from its platform: the working directory, the clock and
  \<open>unicodedata.normalize('NFC', _)\<close>, which is a parameter of the model.
\<close>

record platform =
  cwd :: string
  now :: datetime
  normalize_NFC :: "string \<Rightarrow> string"

text \<open>The events of \<open>watchdog\<close>; a move event also carries its destination.\<close>

record event =
  src_path :: string
  is_directory :: bool

record moved_event = event +
  dest_path :: string

text \<open>
  The fields of \<open>FileHandler\<close> together with the two things its methods act on: the
  filesystem and the lines printed so far.
\<close>

record state =
  watch_dir :: string
  archive_dir :: string
  system_created_txt_files :: "string set"
  fs :: filesystem
  stdout :: "string list"

text \<open>
  A handler returns, or an exception leaves it; either way the state it reached stays.
\<close>

datatype outcome = Returned state | Raised error state

fun final :: "outcome \<Rightarrow> state" where
  "final (Returned s) = s"
| "final (Raised e s) = s"

definition border :: string where
  "border = ''=========================''"

definition py_print :: "string \<Rightarrow> state \<Rightarrow> state" where
  "py_print line s = s\<lparr>stdout := stdout s @ [line]\<rparr>"

text \<open>The text written into a sidecar file (lines 54 to 61 of the source).\<close>

definition sidecar_text :: "string \<Rightarrow> string \<Rightarrow> string" where
  "sidecar_text base_name current_date =
     ''File name: '' @ base_name @ [newline]
     @ [newline]
     @ ''Link: '' @ [newline]
     @ ''                        '' @ [newline]
     @ ''Last updated: '' @ current_date @ [newline]
     @ [newline]
     @ ''Other:'' @ [newline]"

definition on_created :: "platform \<Rightarrow> state \<Rightarrow> event \<Rightarrow> outcome" where
  "on_created os s event =
     (if is_directory event then Returned s
      else case relpath (cwd os) (src_path event) (watch_dir s) of
        Inl err \<Rightarrow> Raised err s
      | Inr relative_path \<Rightarrow>
          let base_name = normalize_NFC os (basename (src_path event));
              name_without_ext = normalize_NFC os (fst (splitext base_name));
              txt_path = join (archive_dir s)
                           [dirname relative_path, name_without_ext @ ''.txt'']
          in case makedirs (cwd os) (fs s) (dirname txt_path) of
               Inl err \<Rightarrow> Raised err s
             | Inr fs1 \<Rightarrow>
                 let s1 = s\<lparr>fs := fs1\<rparr>
                 in if src_path event = txt_path then Returned s1
                    else if endswith base_name ''.txt'' then
                      (if src_path event \<in> system_created_txt_files s1 then Returned s1
                       else Returned (py_print border
                              (py_print (''Ignored .txt file: '' @ base_name) s1)))
                    else
                      let current_date = strftime_Ymd_HM (now os)
                      in case write_file (cwd os) (fs s1) txt_path
                                (sidecar_text base_name current_date) of
                           Inl err \<Rightarrow> Raised err s1
                         | Inr fs2 \<Rightarrow>
                             Returned
                               (py_print border
                               (py_print ''Corresponding source file also created.''
                               (py_print (''File added: '' @ base_name)
                                 (s1\<lparr>fs := fs2,
                                     system_created_txt_files :=
                                       insert txt_path (system_created_txt_files s1)\<rparr>)))))"

definition on_moved :: "platform \<Rightarrow> state \<Rightarrow> moved_event \<Rightarrow> outcome" where
  "on_moved os s event =
     (if is_directory event then Returned s
      else case relpath (cwd os) (src_path event) (watch_dir s) of
        Inl err \<Rightarrow> Raised err s
      | Inr old_relative_path \<Rightarrow>
     (case relpath (cwd os) (dest_path event) (watch_dir s) of
        Inl err \<Rightarrow> Raised err s
      | Inr new_relative_path \<Rightarrow>
          let old_name_without_ext =
                normalize_NFC os (fst (splitext (basename old_relative_path)));
              new_name_without_ext =
                normalize_NFC os (fst (splitext (basename new_relative_path)));
              old_txt_path = join (archive_dir s)
                               [dirname old_relative_path, old_name_without_ext @ ''.txt''];
              new_txt_path = join (archive_dir s)
                               [dirname new_relative_path, new_name_without_ext @ ''.txt'']
          in if path_exists (cwd os) (fs s) old_txt_path then
               (case makedirs (cwd os) (fs s) (dirname new_txt_path) of
                  Inl err \<Rightarrow> Raised err s
                | Inr fs1 \<Rightarrow>
                    (case shutil_move (cwd os) fs1 old_txt_path new_txt_path of
                       Inl err \<Rightarrow> Raised err (s\<lparr>fs := fs1\<rparr>)
                     | Inr fs2 \<Rightarrow> Returned (s\<lparr>fs := fs2\<rparr>)))
             else Returned s))"

definition possible_extensions :: "string list" where
  "possible_extensions =
     [''.mp4'', ''.avi'', ''.mkv'', ''.mov'', ''.webm'', ''.gif'', ''.jpeg'', ''.jpg'',
      ''.png'', ''.webp'', ''.mp3'', ''.aac'', ''.wav'', ''.flac'', ''.bmp'']"

text \<open>
  The loop over the extensions in \<open>on_deleted\<close> (lines 127 to 134): the first candidate
  that exists is removed and the loop is left.
\<close>

fun probe_extensions ::
  "platform \<Rightarrow> state \<Rightarrow> string \<Rightarrow> string \<Rightarrow> string \<Rightarrow> string list \<Rightarrow> outcome" where
  "probe_extensions os s relative_path base_name name_without_ext [] = Returned s"
| "probe_extensions os s relative_path base_name name_without_ext (ext # exts) =
     (let watch_file_path = join (watch_dir s)
                              [dirname relative_path, name_without_ext @ ext]
      in if path_exists (cwd os) (fs s) watch_file_path then
           (case os_remove (cwd os) (fs s) watch_file_path of
              Inl err \<Rightarrow> Raised err s
            | Inr fs' \<Rightarrow>
                Returned
                  (py_print border
                  (py_print (''Watch file also deleted: '' @ name_without_ext @ ext)
                  (py_print (''File deleted: '' @ base_name) (s\<lparr>fs := fs'\<rparr>)))))
         else probe_extensions os s relative_path base_name name_without_ext exts)"

definition on_deleted :: "platform \<Rightarrow> state \<Rightarrow> event \<Rightarrow> outcome" where
  "on_deleted os s event =
     (if is_directory event then
        (case relpath (cwd os) (src_path event) (watch_dir s) of
           Inl err \<Rightarrow> Raised err s
         | Inr relative_dir_path \<Rightarrow>
             let archive_dir_path = join (archive_dir s) [relative_dir_path]
             in if path_exists (cwd os) (fs s) archive_dir_path then
                  (case rmtree (cwd os) (fs s) archive_dir_path of
                     (Some err, fs') \<Rightarrow> Raised err (s\<lparr>fs := fs'\<rparr>)
                   | (None, fs') \<Rightarrow>
                       Returned
                         (py_print border
                         (py_print ''Corresponding source files also deleted.''
                         (py_print (''Directory deleted: '' @ relative_dir_path)
                           (s\<lparr>fs := fs'\<rparr>)))))
                else Returned s)
      else
        (case relpath (cwd os) (src_path event) (watch_dir s) of
           Inl err \<Rightarrow> Raised err s
         | Inr relative_path \<Rightarrow>
             let base_name = normalize_NFC os (basename relative_path);
                 name_without_ext = normalize_NFC os (fst (splitext base_name));
                 txt_path = join (archive_dir s)
                              [dirname relative_path, name_without_ext @ ''.txt'']
             in case (if path_exists (cwd os) (fs s) txt_path then
                        (case os_remove (cwd os) (fs s) txt_path of
                           Inl err \<Rightarrow> Raised err s
                         | Inr fs' \<Rightarrow>
                             Returned
                               (py_print border
                               (py_print ''Corresponding source file also deleted.''
                               (py_print (''File deleted: '' @ base_name)
                                 (s\<lparr>fs := fs'\<rparr>)))))
                      else Returned s) of
                  Raised err s' \<Rightarrow> Raised err s'
                | Returned s' \<Rightarrow>
                    if endswith base_name ''.txt'' then
                      probe_extensions os s' relative_path base_name
                        (fst (splitext base_name)) possible_extensions
                    else Returned s'))"

section \<open>Notions of the specification\<close>

text \<open>
  A plain name: what a directory entry can be called. The components of a normalised
  absolute path are plain names.
\<close>

definition plain_name :: "string \<Rightarrow> bool" where
  "plain_name c = (c \<noteq> [] \<and> c \<noteq> ''.'' \<and> c \<noteq> ''..'' \<and> sep \<notin> set c)"

text \<open>
  The directories up to \<open>k\<close> can be created (or exist already): no regular file stands
  at \<open>k\<close> or on the way to it.
\<close>

definition creatable :: "filesystem \<Rightarrow> string list \<Rightarrow> bool" where
  "creatable f k = (\<forall>p \<in> set (prefixes k). \<not> is_file (f p))"

text \<open>
  Two facts about Unicode normalisation that the program relies on: NFC neither
  composes nor decomposes the ASCII characters of a name, so it introduces no slash
  and keeps a final \<open>.txt\<close>. They are stated as properties of the parameter.
\<close>

definition keeps_sep_free :: "(string \<Rightarrow> string) \<Rightarrow> bool" where
  "keeps_sep_free f = (\<forall>x. sep \<notin> set x \<longrightarrow> sep \<notin> set (f x))"

definition keeps_txt_suffix :: "(string \<Rightarrow> string) \<Rightarrow> bool" where
  "keeps_txt_suffix f = (\<forall>x. endswith x ''.txt'' \<longrightarrow> endswith (f x) ''.txt'')"

text \<open>
  The sidecar path \<open>on_created\<close> computes for an event path (lines 25 to 30), and the
  one \<open>on_moved\<close> computes for each end of a move (lines 77 to 84), which normalises
  the name once, after the extension is split off.
\<close>

definition created_txt_path :: "platform \<Rightarrow> state \<Rightarrow> string \<Rightarrow> error + string" where
  "created_txt_path os s p =
     (case relpath (cwd os) p (watch_dir s) of
        Inl err \<Rightarrow> Inl err
      | Inr relative_path \<Rightarrow>
          Inr (join (archive_dir s)
                 [dirname relative_path,
                  normalize_NFC os (fst (splitext (normalize_NFC os (basename p)))) @ ''.txt'']))"

definition moved_txt_path :: "platform \<Rightarrow> state \<Rightarrow> string \<Rightarrow> error + string" where
  "moved_txt_path os s p =
     (case relpath (cwd os) p (watch_dir s) of
        Inl err \<Rightarrow> Inl err
      | Inr relative_path \<Rightarrow>
          Inr (join (archive_dir s)
                 [dirname relative_path,
                  normalize_NFC os (fst (splitext (basename relative_path))) @ ''.txt'']))"

text \<open>
  The states the handler can be in: it starts with an empty marker set, every handler
  call leaves it in the state the call reached (also when an exception left the call),
  and between calls anything may happen to the filesystem.
\<close>

inductive reachable :: "state \<Rightarrow> bool" where
  start: "system_created_txt_files s = {} \<Longrightarrow> reachable s"
| created: "reachable s \<Longrightarrow> reachable (final (on_created os s e))"
| moved: "reachable s \<Longrightarrow> reachable (final (on_moved os s m))"
| deleted: "reachable s \<Longrightarrow> reachable (final (on_deleted os s e))"
| world: "reachable s \<Longrightarrow> reachable (s\<lparr>fs := f\<rparr>)"


section \<open>Example inputs\<close>

definition example_platform :: platform where
  "example_platform =
     \<lparr>cwd = ''/'',
      now = \<lparr>year = 2024, month = 3, day = 7, hour = 9, minute = 5\<rparr>,
      normalize_NFC = (\<lambda>x. x)\<rparr>"

definition example_state :: state where
  "example_state =
     \<lparr>watch_dir = ''/w'', archive_dir = ''/a'', system_created_txt_files = {},
      fs = [[''w''] \<mapsto> Dir, [''a''] \<mapsto> Dir,
            [''w'', ''video.mp4''] \<mapsto> File ''mp4 bytes'',
            [''w'', ''video.mov''] \<mapsto> File ''mov bytes''],
      stdout = []\<rparr>"

definition clip_created :: event where
  "clip_created = \<lparr>src_path = ''/w/n/clip.webm'', is_directory = False\<rparr>"

definition notes_created :: event where
  "notes_created = \<lparr>src_path = ''/w/sub/notes.txt'', is_directory = False\<rparr>"

definition sidecar_notified :: event where
  "sidecar_notified = \<lparr>src_path = ''/a/n/clip.txt'', is_directory = False\<rparr>"

text \<open>The state after \<open>clip_created\<close> was handled: the sidecar is written and marked.\<close>

definition example_marked_state :: state where
  "example_marked_state = final (on_created example_platform example_state clip_created)"

text \<open>
  A state in which a directory stands where the sidecar of \<open>b.mp4\<close> would go, and the
  event that renames \<open>a.mp4\<close> to \<open>b.mp4\<close>.
\<close>

definition example_move_state :: state where
  "example_move_state =
     \<lparr>watch_dir = ''/w'', archive_dir = ''/a'', system_created_txt_files = {},
      fs = [[''w''] \<mapsto> Dir, [''a''] \<mapsto> Dir,
            [''w'', ''b.mp4''] \<mapsto> File ''mp4 bytes'',
            [''a'', ''a.txt''] \<mapsto> File ''notes on a'',
            [''a'', ''b.txt''] \<mapsto> Dir],
      stdout = []\<rparr>"

definition a_renamed_to_b :: moved_event where
  "a_renamed_to_b =
     \<lparr>src_path = ''/w/a.mp4'', is_directory = False, dest_path = ''/w/b.mp4''\<rparr>"

definition clip_moved :: moved_event where
  "clip_moved =
     \<lparr>src_path = ''/w/n/clip.webm'', is_directory = False, dest_path = ''/w/m/film.webm''\<rparr>"

definition video_sidecar_deleted :: event where
  "video_sidecar_deleted = \<lparr>src_path = ''/a/video.txt'', is_directory = False\<rparr>"

section \<open>Splitting and joining\<close>

lemma split_str_nonempty [simp]: "split_str c s \<noteq> []"
  by (induction s) (auto split: list.splits)

lemma split_str_free: "c \<notin> set s \<Longrightarrow> split_str c s = [s]"
  by (induction s) auto

lemma split_str_append: "split_str c (a @ c # b) = split_str c a @ split_str c b"
  by (induction a) (auto split: list.splits)

lemma split_str_pieces_free: "x \<in> set (split_str c s) \<Longrightarrow> c \<notin> set x"
  by (induction s arbitrary: x) (auto split: list.splits if_splits)

lemma split_str_last: "c \<notin> set n \<Longrightarrow> split_str c (a @ c # n) = split_str c a @ [n]"
  by (simp add: split_str_append split_str_free)

lemma split_str_replicate: "split_str c (a @ replicate k c) = split_str c a @ replicate k []"
proof (induction k)
  case 0 then show ?case by simp
next
  case (Suc k)
  have "a @ replicate (Suc k) c = (a @ replicate k c) @ c # []"
    by (simp add: replicate_append_same)
  then have "split_str c (a @ replicate (Suc k) c) = split_str c (a @ replicate k c) @ split_str c []"
    by (simp only: split_str_append)
  with Suc show ?case by (simp add: replicate_append_same)
qed

lemma join_str_snoc: "xs \<noteq> [] \<Longrightarrow> join_str c (xs @ [x]) = join_str c xs @ c # x"
  by (induction c xs rule: join_str.induct) auto

lemma split_join_str:
  "xs \<noteq> [] \<Longrightarrow> \<forall>x \<in> set xs. c \<notin> set x \<Longrightarrow> split_str c (join_str c xs) = xs"
proof (induction xs rule: rev_induct)
  case Nil then show ?case by simp
next
  case (snoc x xs)
  show ?case
  proof (cases "xs = []")
    case True with snoc.prems show ?thesis by (simp add: split_str_free)
  next
    case False
    with snoc show ?thesis by (simp add: join_str_snoc split_str_last)
  qed
qed

lemma normpath_loop_append:
  "normpath_loop b acc (xs @ ys) = normpath_loop b (normpath_loop b acc xs) ys"
  by (induction b acc xs rule: normpath_loop.induct) auto

lemma normpath_loop_plain:
  "\<forall>x \<in> set xs. plain_name x \<Longrightarrow> normpath_loop b acc xs = acc @ xs"
  by (induction xs arbitrary: acc) (auto simp: plain_name_def)

lemma normpath_loop_empties: "normpath_loop b acc (replicate k []) = acc"
  by (induction k) auto

lemma normpath_loop_result_plain:
  "\<forall>x \<in> set acc. plain_name x \<Longrightarrow> \<forall>x \<in> set xs. sep \<notin> set x \<Longrightarrow>
   \<forall>x \<in> set (normpath_loop True acc xs). plain_name x"
proof (induction xs arbitrary: acc)
  case Nil then show ?case by simp
next
  case (Cons x xs)
  have xs: "\<forall>y \<in> set xs. sep \<notin> set y" using Cons.prems(2) by simp
  have bl: "\<forall>y \<in> set (butlast acc). plain_name y"
    using Cons.prems(1) by (meson in_set_butlastD)
  consider (skip) "x = [] \<or> x = ''.''" | (up) "x = ''..''" | (name) "plain_name x"
    using Cons.prems(2) by (auto simp: plain_name_def)
  then show ?case
  proof cases
    case skip
    then have eq: "normpath_loop True acc (x # xs) = normpath_loop True acc xs" by auto
    show ?thesis unfolding eq by (rule Cons.IH[OF Cons.prems(1) xs])
  next
    case up
    have nl: "acc \<noteq> [] \<Longrightarrow> last acc \<noteq> ''..''"
      using Cons.prems(1) by (auto simp: plain_name_def)
    show ?thesis
    proof (cases "acc = []")
      case True
      with up have eq: "normpath_loop True acc (x # xs) = normpath_loop True [] xs" by simp
      have e: "\<forall>y \<in> set ([]::string list). plain_name y" by simp
      show ?thesis unfolding eq by (rule Cons.IH[OF e xs])
    next
      case False
      with up nl have eq: "normpath_loop True acc (x # xs) = normpath_loop True (butlast acc) xs"
        by simp
      show ?thesis unfolding eq by (rule Cons.IH[OF bl xs])
    qed
  next
    case name
    then have eq: "normpath_loop True acc (x # xs) = normpath_loop True (acc @ [x]) xs"
      by (auto simp: plain_name_def)
    have pl: "\<forall>y \<in> set (acc @ [x]). plain_name y" using Cons.prems(1) name by simp
    show ?thesis unfolding eq by (rule Cons.IH[OF pl xs])
  qed
qed


lemma split_str_leading: "split_str c (replicate n c @ s) = replicate n [] @ split_str c s"
  by (induction n) auto

lemma plain_name_nonempty: "plain_name x \<Longrightarrow> x \<noteq> []"
  by (simp add: plain_name_def)

lemma plain_name_free: "plain_name x \<Longrightarrow> sep \<notin> set x"
  by (simp add: plain_name_def)

lemma filter_nonempty_split_join:
  assumes "\<forall>x \<in> set comps. plain_name x"
  shows "filter (\<lambda>x. x \<noteq> []) (split_str sep (join_str sep comps)) = comps"
proof (cases "comps = []")
  case True then show ?thesis by simp
next
  case False
  have "\<forall>x \<in> set comps. sep \<notin> set x" using assms plain_name_free by blast
  with False have "split_str sep (join_str sep comps) = comps" by (rule split_join_str)
  moreover have "filter (\<lambda>x. x \<noteq> []) comps = comps"
    using assms plain_name_nonempty by (simp add: filter_id_conv)
  ultimately show ?thesis by simp
qed

lemma isabs_Cons: "isabs p \<longleftrightarrow> (\<exists>t. p = sep # t)"
  by (cases p) (auto simp: isabs_def startswith_def)

lemma filter_replicate_empty: "filter (\<lambda>x. x \<noteq> []) (replicate n [] @ xs) = filter (\<lambda>x. x \<noteq> []) xs"
  by (induction n) auto

lemma path_list_abs:
  assumes "isabs p"
  shows "path_list wd p = normpath_loop True [] (split_str sep p)"
proof -
  define comps where "comps = normpath_loop True [] (split_str sep p)"
  have pl: "\<forall>x \<in> set comps. plain_name x"
    unfolding comps_def
    by (rule normpath_loop_result_plain) (auto dest: split_str_pieces_free)
  from assms obtain t where p: "p = sep # t" by (auto simp: isabs_Cons)
  have "\<exists>n. normpath p = replicate (Suc n) sep @ join_str sep comps"
  proof (cases "startswith p [sep, sep] \<and> \<not> startswith p [sep, sep, sep]")
    case True
    then have "normpath p = replicate (Suc 1) sep @ join_str sep comps"
      using p by (simp add: normpath_def Let_def startswith_def comps_def numeral_2_eq_2)
    then show ?thesis by blast
  next
    case False
    then have "normpath p = replicate (Suc 0) sep @ join_str sep comps"
      using p by (auto simp add: normpath_def Let_def startswith_def comps_def)
    then show ?thesis by blast
  qed
  then obtain n where "normpath p = replicate (Suc n) sep @ join_str sep comps" by blast
  then have "path_list wd p = filter (\<lambda>x. x \<noteq> []) (split_str sep (join_str sep comps))"
    using assms by (simp add: path_list_def abspath_def split_str_leading filter_replicate_empty)
  with pl show ?thesis by (simp add: filter_nonempty_split_join comps_def)
qed

lemma path_list_plain: "isabs p \<Longrightarrow> \<forall>x \<in> set (path_list wd p). plain_name x"
  by (simp add: path_list_abs) (rule normpath_loop_result_plain, auto dest: split_str_pieces_free)

lemma rfind_last: "c \<notin> set n \<Longrightarrow> rfind c (x @ c # n) = int (length x)"
proof -
  assume "c \<notin> set n"
  then have "dropWhile (\<lambda>y. y \<noteq> c) (rev n @ c # rev x) = c # rev x"
    by (auto simp: dropWhile_append3)
  then show ?thesis by (simp add: rfind_def)
qed

lemma rfind_none: "c \<notin> set n \<Longrightarrow> rfind c n = - 1"
proof -
  assume "c \<notin> set n"
  then have "dropWhile (\<lambda>y. y \<noteq> c) (rev n) = []" by auto
  then show ?thesis by (simp add: rfind_def)
qed

lemma last_sep_cases:
  obtains (none) "c \<notin> set p" | (some) x n where "p = x @ c # n" "c \<notin> set n"
proof (cases "c \<in> set p")
  case False then show ?thesis by (rule none)
next
  case True
  then have "c \<in> set (rev p)" by simp
  then obtain ys zs where "rev p = ys @ c # zs" "c \<notin> set ys"
    by (meson split_list_first)
  then have "rev (rev p) = rev (ys @ c # zs)" "c \<notin> set (rev ys)"
    by simp_all
  then have "p = rev zs @ c # rev ys" "c \<notin> set (rev ys)"
    by simp_all
  then show ?thesis by (rule some)
qed

lemma nat_int_Suc: "nat (int k + 1) = Suc k"
  by simp

lemma basename_snoc: "sep \<notin> set n \<Longrightarrow> basename (x @ sep # n) = n"
  by (simp add: basename_def rfind_last nat_int_Suc del: of_nat_Suc)

lemma basename_free: "sep \<notin> set n \<Longrightarrow> basename n = n"
  by (simp add: basename_def rfind_none)

lemma basename_sep_free: "sep \<notin> set (basename p)"
  by (cases p rule: last_sep_cases[where c = sep]) (simp_all add: basename_snoc basename_free)

lemma abs_decompose:
  assumes "isabs p"
  obtains x where "p = x @ sep # basename p"
proof (cases p rule: last_sep_cases[where c = sep])
  case none
  with assms show ?thesis by (auto simp: isabs_Cons)
next
  case (some x n)
  then have "p = x @ sep # basename p" by (simp add: basename_snoc)
  then show ?thesis by (rule that)
qed

lemma suffix_basename:
  assumes "endswith p suf" "sep \<notin> set suf"
  shows "endswith (basename p) suf"
proof (cases p rule: last_sep_cases[where c = sep])
  case none
  with assms show ?thesis by (simp add: basename_free)
next
  case (some x n)
  from assms(1) obtain y where y: "p = y @ suf" by (auto simp: endswith_def suffix_def)
  have "suffix suf n"
  proof -
    from y some(1) have "y @ suf = x @ sep # n" by simp
    then consider (a) us where "y = x @ us" "us @ suf = sep # n"
      | (b) us where "y @ us = x" "suf = us @ sep # n"
      by (auto simp: append_eq_append_conv2)
    then show ?thesis
    proof cases
      case a
      then show ?thesis using assms(2)
        by (cases us) (auto simp: suffix_def)
    next
      case b
      with assms(2) show ?thesis by auto
    qed
  qed
  with some show ?thesis by (simp add: basename_snoc endswith_def)
qed


lemma join_step_abs: "isabs a \<Longrightarrow> isabs (join_step a r)"
  by (auto simp: join_step_def isabs_def startswith_def)

lemma foldl_join_step_abs: "isabs a \<Longrightarrow> isabs (foldl join_step a ps)"
  by (induction ps arbitrary: a) (simp_all add: join_step_abs)

lemma join_abs: "isabs a \<Longrightarrow> isabs (join a ps)"
  by (simp add: join_def foldl_join_step_abs)

lemma join_step_endswith: "endswith (join_step a (x @ suf)) suf"
  by (auto simp: join_step_def endswith_def suffix_def)

lemma join_endswith: "endswith (join a (ps @ [x @ suf])) suf"
  by (simp add: join_def join_step_endswith)

lemma split_str_trailing: "split_str c (a @ [c]) = split_str c a @ [[]]"
  using split_str_append[of c a "[]"] by simp

lemma join_step_comps:
  assumes "isabs a" "\<not> startswith r [sep]"
  shows "normpath_loop True [] (split_str sep (join_step a r)) =
         normpath_loop True (normpath_loop True [] (split_str sep a)) (split_str sep r)"
proof (cases "endswith a [sep]")
  case True
  then obtain a' where a: "a = a' @ [sep]" by (auto simp: endswith_def suffix_def)
  have "join_step a r = a' @ sep # r" using assms(2) True a by (simp add: join_step_def)
  then show ?thesis
    by (simp add: a split_str_append split_str_trailing normpath_loop_append)
next
  case False
  moreover have "a \<noteq> []" using assms(1) by (auto simp: isabs_Cons)
  ultimately have "join_step a r = a @ sep # r" using assms(2) by (simp add: join_step_def)
  then show ?thesis by (simp add: split_str_append normpath_loop_append)
qed

lemma join_step_path_list:
  assumes "isabs a" "\<not> startswith r [sep]"
  shows "path_list wd (join_step a r) =
         normpath_loop True (path_list wd a) (split_str sep r)"
  using assms by (simp add: path_list_abs join_step_abs join_step_comps)

lemma takeWhile_eq_replicate:
  "takeWhile (\<lambda>y. y = c) l = replicate (length (takeWhile (\<lambda>y. y = c) l)) c"
  by (induction l) auto

lemma rstrip_decompose: "\<exists>j. x = rstrip c x @ replicate j c"
proof -
  have "x = rev (takeWhile (\<lambda>y. y = c) (rev x) @ dropWhile (\<lambda>y. y = c) (rev x))"
    by (simp only: takeWhile_dropWhile_id rev_rev_ident)
  then have "x = rstrip c x @ rev (takeWhile (\<lambda>y. y = c) (rev x))"
    by (simp only: rev_append rstrip_def)
  moreover have "rev (takeWhile (\<lambda>y. y = c) (rev x))
      = replicate (length (takeWhile (\<lambda>y. y = c) (rev x))) c"
    by (subst takeWhile_eq_replicate) simp
  ultimately show ?thesis by metis
qed

lemma rstrip_snoc: "rstrip c (x @ [c]) = rstrip c x"
  by (simp add: rstrip_def)

lemma rstrip_id: "x \<noteq> [] \<Longrightarrow> last x \<noteq> c \<Longrightarrow> rstrip c x = x"
  by (cases x rule: rev_cases) (simp_all add: rstrip_def)

lemma split_str_all_sep: "split_str c (replicate k c) = replicate (Suc k) []"
  using split_str_replicate[of c "[]" k] by simp

lemma dirname_snoc:
  assumes "sep \<notin> set n"
  shows "dirname (x @ sep # n) =
         (if x @ [sep] \<noteq> replicate (Suc (length x)) sep then rstrip sep x else x @ [sep])"
proof -
  have "take (nat (rfind sep (x @ sep # n) + 1)) (x @ sep # n) = x @ [sep]"
    using assms by (simp add: rfind_last nat_int_Suc del: of_nat_Suc)
  then show ?thesis by (simp add: dirname_def Let_def rstrip_snoc)
qed

lemma dir_base:
  assumes "isabs t" "plain_name (basename t)"
  shows "isabs (dirname t) \<and> path_list wd t = path_list wd (dirname t) @ [basename t]"
proof -
  define n where "n = basename t"
  from assms(1) obtain x where t: "t = x @ sep # n"
    unfolding n_def by (rule abs_decompose)
  have nf: "sep \<notin> set n" using assms(2) by (simp add: n_def plain_name_def)
  have pn: "\<forall>y \<in> set [n]. plain_name y" using assms(2) by (simp add: n_def)
  have "path_list wd t = normpath_loop True [] (split_str sep x @ [n])"
    using assms(1) nf by (simp add: path_list_abs t split_str_last)
  then have pt: "path_list wd t = normpath_loop True [] (split_str sep x) @ [n]"
    by (simp only: normpath_loop_append normpath_loop_plain[OF pn])
  have dn: "dirname t =
      (if x @ [sep] \<noteq> replicate (Suc (length x)) sep then rstrip sep x else x @ [sep])"
    unfolding t using nf by (rule dirname_snoc)
  show ?thesis
  proof (cases "x @ [sep] = replicate (Suc (length x)) sep")
    case True
    then have d: "dirname t = replicate (Suc (length x)) sep" using dn by simp
    from True have "x @ [sep] = replicate (length x) sep @ [sep]"
      by (simp add: replicate_append_same)
    then have x: "x = replicate (length x) sep" by simp
    have "isabs (dirname t)" by (simp add: d isabs_Cons)
    moreover have "path_list wd (dirname t) = []"
      using \<open>isabs (dirname t)\<close> by (simp add: path_list_abs d split_str_all_sep
          normpath_loop_empties[of True "[]" "Suc (Suc (length x))", simplified])
    moreover have "normpath_loop True [] (split_str sep x) = []"
      by (subst x) (simp add: split_str_all_sep
          normpath_loop_empties[of True "[]" "Suc (length x)", simplified])
    ultimately show ?thesis using pt by (simp add: n_def)
  next
    case False
    then have d: "dirname t = rstrip sep x" using dn by simp
    obtain j where xj: "x = rstrip sep x @ replicate j sep"
      using rstrip_decompose by blast
    have ne: "rstrip sep x \<noteq> []"
    proof
      assume "rstrip sep x = []"
      with xj have "x = replicate j sep" by simp
      then have "x @ [sep] = replicate (Suc (length x)) sep"
        by (metis length_replicate replicate_append_same replicate_Suc)
      with False show False by simp
    qed
    have "x \<noteq> []" using ne xj by auto
    then have "hd x = sep" using assms(1) t by (cases x) (auto simp: isabs_Cons)
    then have "hd (rstrip sep x) = sep" using ne xj by (metis hd_append2)
    then have ab: "isabs (dirname t)" using ne by (cases "rstrip sep x") (auto simp: d isabs_Cons)
    have "split_str sep x = split_str sep (rstrip sep x) @ replicate j []"
      by (subst xj) (simp add: split_str_replicate)
    then have "normpath_loop True [] (split_str sep x) = path_list wd (dirname t)"
      using ab by (simp add: path_list_abs d normpath_loop_append normpath_loop_empties)
    with pt ab show ?thesis by (simp add: n_def)
  qed
qed

lemma lcp_append: "longest_common_prefix xs (xs @ ys) = xs"
  by (induction xs) auto

lemma relpath_under:
  assumes "p \<noteq> []" "path_list wd p = path_list wd root @ rest" "rest \<noteq> []"
  shows "relpath wd p root = Inr (join_str sep rest)"
  using assms by (simp add: relpath_def Let_def lcp_append)

lemma join_str_ends:
  assumes "ds \<noteq> []" "\<forall>x \<in> set ds. plain_name x"
  shows "join_str sep ds \<noteq> [] \<and> last (join_str sep ds) \<noteq> sep \<and> hd (join_str sep ds) \<noteq> sep"
  using assms
proof (induction ds rule: rev_nonempty_induct)
  case (single x)
  then have "x \<noteq> []" "sep \<notin> set x" by (simp_all add: plain_name_def)
  then show ?case by (metis join_str.simps(2) last_in_set hd_in_set)
next
  case (snoc x xs)
  then have x: "x \<noteq> []" "sep \<notin> set x" by (simp_all add: plain_name_def)
  have IH: "join_str sep xs \<noteq> [] \<and> hd (join_str sep xs) \<noteq> sep" using snoc by simp
  have js: "join_str sep (xs @ [x]) = join_str sep xs @ sep # x"
    using snoc.hyps(1) by (rule join_str_snoc)
  have "last (join_str sep (xs @ [x])) = last x" using x by (simp add: js)
  moreover have "last x \<noteq> sep" using x by (metis last_in_set)
  moreover have "hd (join_str sep (xs @ [x])) = hd (join_str sep xs)" using IH by (simp add: js)
  ultimately show ?case using IH by (simp add: js)
qed

lemma join_str_not_abs:
  assumes "\<forall>x \<in> set ds. plain_name x"
  shows "\<not> startswith (join_str sep ds) [sep]"
proof (cases "ds = []")
  case True then show ?thesis by (simp add: startswith_def)
next
  case False
  with assms have "join_str sep ds \<noteq> [] \<and> hd (join_str sep ds) \<noteq> sep"
    using join_str_ends by blast
  then show ?thesis by (cases "join_str sep ds") (auto simp: startswith_def)
qed

lemma dirname_basename_join_str:
  assumes "rest \<noteq> []" "\<forall>x \<in> set rest. plain_name x"
  shows "dirname (join_str sep rest) = join_str sep (butlast rest)
       \<and> basename (join_str sep rest) = last rest"
proof -
  obtain ds n where rest: "rest = ds @ [n]" using assms(1) by (meson rev_exhaust)
  have nf: "sep \<notin> set n" using assms(2) rest by (simp add: plain_name_def)
  show ?thesis
  proof (cases "ds = []")
    case True
    then show ?thesis using nf rest
      by (simp add: dirname_def basename_free rfind_none Let_def)
  next
    case False
    have pl: "\<forall>x \<in> set ds. plain_name x" using assms(2) rest by simp
    define J where "J = join_str sep ds"
    have J: "J \<noteq> []" "last J \<noteq> sep" using join_str_ends[OF False pl] by (simp_all add: J_def)
    have js: "join_str sep rest = J @ sep # n"
      using False by (simp add: rest join_str_snoc J_def)
    have "J @ [sep] \<noteq> replicate (Suc (length J)) sep"
    proof
      assume "J @ [sep] = replicate (Suc (length J)) sep"
      then have "set J \<subseteq> {sep}" by (metis set_replicate_conv_if set_append Un_subset_iff subset_insertI insert_absorb2 empty_subsetI order_refl le_sup_iff)
      with J show False by (metis last_in_set singletonD subsetD)
    qed
    then have "dirname (join_str sep rest) = J"
      using nf J by (simp add: js dirname_snoc rstrip_id)
    moreover have "basename (join_str sep rest) = n"
      unfolding js using nf by (rule basename_snoc)
    ultimately show ?thesis by (simp add: rest J_def)
  qed
qed

lemma split_join_loop:
  assumes "\<forall>x \<in> set ds. plain_name x"
  shows "normpath_loop True acc (split_str sep (join_str sep ds)) = acc @ ds"
proof (cases "ds = []")
  case True then show ?thesis by simp
next
  case False
  have "\<forall>x \<in> set ds. sep \<notin> set x" using assms plain_name_free by blast
  with False have "split_str sep (join_str sep ds) = ds" by (rule split_join_str)
  with assms show ?thesis by (simp add: normpath_loop_plain)
qed

lemma dir_path_resolve:
  assumes "isabs a" "\<forall>x \<in> set rest. plain_name x"
  shows "path_list wd (join a [join_str sep rest]) = path_list wd a @ rest"
  using assms by (simp add: join_def join_step_path_list join_str_not_abs split_join_loop)

lemma txt_path_resolve:
  assumes "isabs a" "\<forall>x \<in> set ds. plain_name x" "plain_name n"
  shows "path_list wd (join a [join_str sep ds, n]) = path_list wd a @ ds @ [n]"
proof -
  have n1: "\<not> startswith n [sep]" using assms(3) by (cases n) (auto simp: plain_name_def startswith_def)
  have n2: "split_str sep n = [n]" using assms(3) by (simp add: split_str_free plain_name_def)
  have n3: "\<forall>x \<in> set [n]. plain_name x" using assms(3) by simp
  have "path_list wd (join_step (join_step a (join_str sep ds)) n)
      = normpath_loop True (path_list wd (join_step a (join_str sep ds))) [n]"
    using assms(1) n1 n2 by (simp add: join_step_path_list join_step_abs)
  also have "\<dots> = path_list wd (join_step a (join_str sep ds)) @ [n]"
    using n3 by (rule normpath_loop_plain)
  also have "path_list wd (join_step a (join_str sep ds)) = path_list wd a @ ds"
    using assms(1,2) by (simp add: join_step_path_list join_str_not_abs split_join_loop)
  finally show ?thesis by (simp add: join_def)
qed

section \<open>The handlers\<close>

lemma py_print_fields [simp]:
  "watch_dir (py_print l s) = watch_dir s"
  "archive_dir (py_print l s) = archive_dir s"
  "system_created_txt_files (py_print l s) = system_created_txt_files s"
  "fs (py_print l s) = fs s"
  "stdout (py_print l s) = stdout s @ [l]"
  by (simp_all add: py_print_def)

lemma is_file_simps [simp]:
  "is_file None = False" "is_file (Some Dir) = False" "is_file (Some (File c)) = True"
  by (simp_all add: is_file_def)

lemma is_file_iff: "is_file n \<longleftrightarrow> (\<exists>c. n = Some (File c))"
  by (auto simp: is_file_def split: option.splits node.splits)

lemma creatable_prefix: "creatable f k \<Longrightarrow> prefix q k \<Longrightarrow> \<not> is_file (f q)"
  by (simp add: creatable_def in_set_prefixes)

lemma makedirs_ok:
  "name \<noteq> [] \<Longrightarrow> creatable f (resolve wd name) \<Longrightarrow>
   makedirs wd f name = Inr (\<lambda>q. if q \<noteq> [] \<and> prefix q (resolve wd name) then Some Dir else f q)"
  by (simp add: makedirs_def creatable_def Let_def)

lemma makedirs_Inr:
  assumes "makedirs wd f name = Inr f1"
  shows "creatable f (resolve wd name)
       \<and> f1 = (\<lambda>q. if q \<noteq> [] \<and> prefix q (resolve wd name) then Some Dir else f q)"
  using assms by (auto simp: makedirs_def creatable_def Let_def split: if_splits)

lemma makedirs_Inl: "makedirs wd f name = Inl err \<Longrightarrow> err \<noteq> ValueError"
  by (auto simp: makedirs_def Let_def split: if_splits)

lemma makedirs_files:
  assumes "makedirs wd f name = Inr f1"
  shows "f1 k = Some (File c) \<longleftrightarrow> f k = Some (File c)"
proof -
  from assms have cr: "creatable f (resolve wd name)"
    and f1: "f1 = (\<lambda>q. if q \<noteq> [] \<and> prefix q (resolve wd name) then Some Dir else f q)"
    using makedirs_Inr by blast+
  show ?thesis
  proof (cases "k \<noteq> [] \<and> prefix k (resolve wd name)")
    case True
    with cr have "\<not> is_file (f k)" by (simp add: creatable_prefix)
    with True show ?thesis by (auto simp: f1 is_file_iff)
  next
    case False then show ?thesis by (auto simp: f1)
  qed
qed

lemma makedirs_keeps:
  assumes "makedirs wd f name = Inr f1" "f k \<noteq> None"
  shows "f1 k = f k"
proof -
  from assms have cr: "creatable f (resolve wd name)"
    and f1: "f1 = (\<lambda>q. if q \<noteq> [] \<and> prefix q (resolve wd name) then Some Dir else f q)"
    using makedirs_Inr by blast+
  show ?thesis
  proof (cases "k \<noteq> [] \<and> prefix k (resolve wd name)")
    case True
    with cr have "\<not> is_file (f k)" by (simp add: creatable_prefix)
    with assms(2) have "f k = Some Dir"
      by (cases "f k") (auto simp: is_file_iff intro: node.exhaust)
    with True show ?thesis by (simp add: f1)
  next
    case False then show ?thesis by (auto simp: f1)
  qed
qed

lemma txt_plain: "endswith n ''.txt'' \<Longrightarrow> sep \<notin> set n \<Longrightarrow> plain_name n"
  by (auto simp: endswith_def suffix_def plain_name_def)

lemma basename_txt_plain:
  assumes "endswith t ''.txt''"
  shows "plain_name (basename t)"
proof -
  have "sep \<notin> set ''.txt''" by (simp add: sep_def)
  with assms have "endswith (basename t) ''.txt''" by (rule suffix_basename)
  then show ?thesis using basename_sep_free by (rule txt_plain)
qed

lemma txt_path_facts:
  assumes "isabs a" "t = join a [d, x @ ''.txt'']"
  shows "isabs t" "endswith t ''.txt''" "plain_name (basename t)" "isabs (dirname t)"
    "dirname t \<noteq> []" "t \<noteq> []"
    "resolve wd t = resolve wd (dirname t) @ [basename t]"
proof -
  show abs: "isabs t" using assms by (simp add: join_abs)
  show e: "endswith t ''.txt''"
    using join_endswith[of a "[d]" x "''.txt''"] assms(2) by simp
  then show p: "plain_name (basename t)" by (rule basename_txt_plain)
  from dir_base[OF abs p, of wd]
  show "isabs (dirname t)" "resolve wd t = resolve wd (dirname t) @ [basename t]"
    by (simp_all add: resolve_def)
  then show "dirname t \<noteq> []" by (auto simp: isabs_Cons)
  show "t \<noteq> []" using abs by (auto simp: isabs_Cons)
qed

lemma write_file_result:
  "write_file c f p t = Inr f' \<Longrightarrow> f' = f(resolve c p \<mapsto> File t)"
  by (auto simp: write_file_def Let_def split: if_splits)

lemma not_prefix_snoc: "\<not> prefix (k @ [n]) k"
  by (auto simp: prefix_def)


lemma created_txt_path_Inr:
  assumes "created_txt_path os s p = Inr t"
  obtains rel where "relpath (cwd os) p (watch_dir s) = Inr rel"
    "t = join (archive_dir s)
           [dirname rel, normalize_NFC os (fst (splitext (normalize_NFC os (basename p)))) @ ''.txt'']"
  using assms by (auto simp: created_txt_path_def split: sum.splits)

lemma on_created_unfold:
  assumes "\<not> is_directory e" "created_txt_path os s (src_path e) = Inr t"
    "makedirs (cwd os) (fs s) (dirname t) = Inr f1"
  shows "on_created os s e =
     (if src_path e = t then Returned (s\<lparr>fs := f1\<rparr>)
      else if endswith (normalize_NFC os (basename (src_path e))) ''.txt'' then
        (if src_path e \<in> system_created_txt_files s then Returned (s\<lparr>fs := f1\<rparr>)
         else Returned (py_print border
                (py_print (''Ignored .txt file: '' @ normalize_NFC os (basename (src_path e)))
                  (s\<lparr>fs := f1\<rparr>))))
      else
        (case write_file (cwd os) f1 t
                (sidecar_text (normalize_NFC os (basename (src_path e)))
                   (strftime_Ymd_HM (now os))) of
           Inl err \<Rightarrow> Raised err (s\<lparr>fs := f1\<rparr>)
         | Inr f2 \<Rightarrow>
             Returned
               (py_print border
               (py_print ''Corresponding source file also created.''
               (py_print (''File added: '' @ normalize_NFC os (basename (src_path e)))
                 (s\<lparr>fs := f2,
                    system_created_txt_files := insert t (system_created_txt_files s)\<rparr>))))))"
proof -
  from assms(2) obtain rel where "relpath (cwd os) (src_path e) (watch_dir s) = Inr rel"
    "t = join (archive_dir s)
           [dirname rel, normalize_NFC os (fst (splitext (normalize_NFC os (basename (src_path e))))) @ ''.txt'']"
    by (rule created_txt_path_Inr)
  then show ?thesis using assms(1,3)
    by (simp add: on_created_def Let_def split: sum.splits)
qed

lemma on_created_failed_makedirs:
  assumes "\<not> is_directory e" "created_txt_path os s (src_path e) = Inr t"
    "makedirs (cwd os) (fs s) (dirname t) = Inl err"
  shows "on_created os s e = Raised err s"
proof -
  from assms(2) obtain rel where "relpath (cwd os) (src_path e) (watch_dir s) = Inr rel"
    "t = join (archive_dir s)
           [dirname rel, normalize_NFC os (fst (splitext (normalize_NFC os (basename (src_path e))))) @ ''.txt'']"
    by (rule created_txt_path_Inr)
  then show ?thesis using assms(1,3)
    by (simp add: on_created_def Let_def)
qed

lemma on_created_no_path:
  assumes "created_txt_path os s (src_path e) = Inl err"
  shows "final (on_created os s e) = s"
  using assms by (auto simp: on_created_def created_txt_path_def split: sum.splits)

lemma created_txt_path_facts:
  assumes "isabs (archive_dir s)" "created_txt_path os s p = Inr t"
  shows "isabs t" "endswith t ''.txt''" "plain_name (basename t)" "isabs (dirname t)"
    "dirname t \<noteq> []" "t \<noteq> []"
    "resolve wd t = resolve wd (dirname t) @ [basename t]"
proof -
  from assms(2) obtain rel where
    t: "t = join (archive_dir s)
           [dirname rel, normalize_NFC os (fst (splitext (normalize_NFC os (basename p)))) @ ''.txt'']"
    by (rule created_txt_path_Inr)
  show "isabs t" "endswith t ''.txt''" "plain_name (basename t)" "isabs (dirname t)"
    "dirname t \<noteq> []" "t \<noteq> []"
    "resolve wd t = resolve wd (dirname t) @ [basename t]"
    using txt_path_facts[OF assms(1) t] by blast+
qed

text \<open>
  Claim C10. For a creation event that is not a directory event, \<open>on_created\<close> calls
  \<open>makedirs\<close> on the parent of the computed sidecar path before it looks at the name
  or at the marker set. So whenever that call can succeed (the archive root is absolute,
  the sidecar path is computed and no regular file is in the way), every directory on
  the way to the sidecar's parent
  exists in the state the handler leaves, in every branch: also when the event is then
  ignored and no file is written.
\<close>

theorem parent_directories_created:
  assumes "\<not> is_directory e"
    and "isabs (archive_dir s)"
    and "created_txt_path os s (src_path e) = Inr t"
    and "creatable (fs s) (resolve (cwd os) (dirname t))"
  shows "\<forall>k. k \<noteq> [] \<and> prefix k (resolve (cwd os) (dirname t))
           \<longrightarrow> fs (final (on_created os s e)) k = Some Dir"
proof (intro allI impI)
  fix k
  assume k: "k \<noteq> [] \<and> prefix k (resolve (cwd os) (dirname t))"
  define f1 where
    "f1 = (\<lambda>q. if q \<noteq> [] \<and> prefix q (resolve (cwd os) (dirname t)) then Some Dir else fs s q)"
  have dn: "dirname t \<noteq> []" using assms(2,3) by (rule created_txt_path_facts)
  have rt: "resolve (cwd os) t = resolve (cwd os) (dirname t) @ [basename t]"
    using assms(2,3) by (rule created_txt_path_facts)
  have mk: "makedirs (cwd os) (fs s) (dirname t) = Inr f1"
    unfolding f1_def using dn assms(4) by (rule makedirs_ok)
  have f1k: "f1 k = Some Dir" using k by (simp add: f1_def)
  have ne: "k \<noteq> resolve (cwd os) t"
    using k rt not_prefix_snoc by metis
  show "fs (final (on_created os s e)) k = Some Dir"
    unfolding on_created_unfold[OF assms(1,3) mk]
    using f1k ne by (auto split: sum.splits dest!: write_file_result)
qed


theorem parent_directories_created_witness:
  "fs example_state [''a'', ''sub''] = None
   \<and> fs (final (on_created example_platform example_state notes_created)) [''a'', ''sub'']
       = Some Dir
   \<and> stdout (final (on_created example_platform example_state notes_created))
       = [''Ignored .txt file: notes.txt'', border]"
proof -
  have h1: "\<not> is_directory notes_created" by (simp add: notes_created_def)
  have h2: "isabs (archive_dir example_state)" by code_simp
  have h3: "created_txt_path example_platform example_state (src_path notes_created)
              = Inr ''/a/sub/notes.txt''"
    by code_simp
  have h4: "creatable (fs example_state)
              (resolve (cwd example_platform) (dirname ''/a/sub/notes.txt''))"
    by code_simp
  have k: "resolve (cwd example_platform) (dirname ''/a/sub/notes.txt'') = [''a'', ''sub'']"
    by code_simp
  have "fs (final (on_created example_platform example_state notes_created)) [''a'', ''sub'']
          = Some Dir"
    using parent_directories_created[OF h1 h2 h3 h4] k by simp
  moreover have "fs example_state [''a'', ''sub''] = None" by code_simp
  moreover have "stdout (final (on_created example_platform example_state notes_created))
                   = [''Ignored .txt file: notes.txt'', border]"
    by code_simp
  ultimately show ?thesis by simp
qed

text \<open>
  Claim C3. With an absolute archive root, a creation event (not a directory event)
  for a file whose normalised name ends in \<open>.txt\<close>, whose path is not in the marker
  set and is not the computed sidecar path, is answered with
  the notice \<open>Ignored .txt file: <name>\<close> and the separator line. No regular file is
  created, changed or removed, nothing that existed is removed, and the marker set is
  unchanged; the one thing that can appear is the chain of parent directories of the
  computed sidecar path, whose creation is assumed possible here (otherwise
  \<open>makedirs\<close> raises before the notice).
\<close>

theorem independent_txt_ignored:
  assumes "\<not> is_directory e"
    and "isabs (archive_dir s)"
    and "endswith (normalize_NFC os (basename (src_path e))) ''.txt''"
    and "src_path e \<notin> system_created_txt_files s"
    and "created_txt_path os s (src_path e) = Inr t"
    and "src_path e \<noteq> t"
    and "creatable (fs s) (resolve (cwd os) (dirname t))"
  shows "\<exists>s'. on_created os s e = Returned s'
           \<and> stdout s' = stdout s
                @ [''Ignored .txt file: '' @ normalize_NFC os (basename (src_path e)), border]
           \<and> (\<forall>k c. fs s' k = Some (File c) \<longleftrightarrow> fs s k = Some (File c))
           \<and> (\<forall>k. fs s k \<noteq> None \<longrightarrow> fs s' k = fs s k)
           \<and> system_created_txt_files s' = system_created_txt_files s"
proof -
  define f1 where
    "f1 = (\<lambda>q. if q \<noteq> [] \<and> prefix q (resolve (cwd os) (dirname t)) then Some Dir else fs s q)"
  have dn: "dirname t \<noteq> []" using assms(2,5) by (rule created_txt_path_facts)
  have mk: "makedirs (cwd os) (fs s) (dirname t) = Inr f1"
    unfolding f1_def using dn assms(7) by (rule makedirs_ok)
  have "on_created os s e =
      Returned (py_print border
         (py_print (''Ignored .txt file: '' @ normalize_NFC os (basename (src_path e)))
            (s\<lparr>fs := f1\<rparr>)))"
    unfolding on_created_unfold[OF assms(1,5) mk] using assms(3,4,6) by simp
  moreover have "\<forall>k c. f1 k = Some (File c) \<longleftrightarrow> fs s k = Some (File c)"
    using makedirs_files[OF mk] by blast
  moreover have "\<forall>k. fs s k \<noteq> None \<longrightarrow> f1 k = fs s k"
    using makedirs_keeps[OF mk] by blast
  ultimately show ?thesis by simp
qed

theorem independent_txt_ignored_witness:
  "on_created example_platform example_state
     \<lparr>src_path = ''/a/notes.txt'', is_directory = False\<rparr>
   = Returned (example_state\<lparr>stdout := [''Ignored .txt file: notes.txt'', border]\<rparr>)"
proof -
  define e where "e = \<lparr>src_path = ''/a/notes.txt'', is_directory = False\<rparr>"
  have h1: "\<not> is_directory e" by (simp add: e_def)
  have h2: "isabs (archive_dir example_state)" by code_simp
  have h3: "endswith (normalize_NFC example_platform (basename (src_path e))) ''.txt''"
    unfolding e_def by code_simp
  have h4: "src_path e \<notin> system_created_txt_files example_state"
    by (simp add: example_state_def)
  have h5: "created_txt_path example_platform example_state (src_path e)
              = Inr ''/a/../a/notes.txt''"
    unfolding e_def by code_simp
  have h6: "src_path e \<noteq> ''/a/../a/notes.txt''" by (simp add: e_def)
  have h7: "creatable (fs example_state)
              (resolve (cwd example_platform) (dirname ''/a/../a/notes.txt''))"
    by code_simp
  have b: "normalize_NFC example_platform (basename (src_path e)) = ''notes.txt''"
    unfolding e_def by code_simp
  obtain s' where r: "on_created example_platform example_state e = Returned s'"
    and out: "stdout s' = stdout example_state @ [''Ignored .txt file: notes.txt'', border]"
    using independent_txt_ignored[OF h1 h2 h3 h4 h5 h6 h7] b by auto
  have mk: "makedirs (cwd example_platform) (fs example_state) (dirname ''/a/../a/notes.txt'')
              = Inr (fs example_state)"
  proof -
    have k: "resolve (cwd example_platform) (dirname ''/a/../a/notes.txt'') = [''a'']"
      by code_simp
    have n: "dirname ''/a/../a/notes.txt'' \<noteq> []" by code_simp
    have "(\<lambda>q. if q \<noteq> [] \<and> prefix q [''a''] then Some Dir else fs example_state q)
            = fs example_state"
      by (auto simp: example_state_def prefix_Cons fun_eq_iff)
    then show ?thesis using makedirs_ok[OF n h7] k by simp
  qed
  have "on_created example_platform example_state e
          = Returned (example_state\<lparr>stdout := [''Ignored .txt file: notes.txt'', border]\<rparr>)"
    unfolding on_created_unfold[OF h1 h5 mk] using h3 h4 h6 b
    by (simp add: py_print_def example_state_def)
  then show ?thesis by (simp add: e_def)
qed

lemma probe_extensions_markers:
  "system_created_txt_files (final (probe_extensions os s r b n exts)) = system_created_txt_files s"
  by (induction exts) (auto simp: Let_def split: sum.splits)

lemma on_moved_markers:
  "system_created_txt_files (final (on_moved os s m)) = system_created_txt_files s"
  by (auto simp: on_moved_def Let_def split: sum.splits)

lemma on_deleted_markers:
  "system_created_txt_files (final (on_deleted os s e)) = system_created_txt_files s"
  by (auto simp: on_deleted_def Let_def probe_extensions_markers
      split: sum.splits prod.splits option.splits outcome.splits if_splits)

lemma on_created_markers:
  "system_created_txt_files (final (on_created os s e)) = system_created_txt_files s
   \<or> (\<exists>t content. created_txt_path os s (src_path e) = Inr t
         \<and> system_created_txt_files (final (on_created os s e)) =
             insert t (system_created_txt_files s)
         \<and> fs (final (on_created os s e)) (resolve (cwd os) t) = Some (File content))"
  by (auto simp: on_created_def created_txt_path_def Let_def dest!: write_file_result
      split: sum.splits)

lemma created_txt_path_endswith:
  "created_txt_path os s p = Inr t \<Longrightarrow> endswith t ''.txt''"
  using join_endswith[of _ "[_]" _ "''.txt''"]
  by (auto simp: created_txt_path_def split: sum.splits)

lemma reachable_markers_txt:
  "reachable s \<Longrightarrow> \<forall>p \<in> system_created_txt_files s. endswith p ''.txt''"
proof (induction rule: reachable.induct)
  case (start s) then show ?case by simp
next
  case (created s os e)
  then show ?case
    using on_created_markers[of os s e] created_txt_path_endswith by auto
next
  case (moved s os m) then show ?case by (simp add: on_moved_markers)
next
  case (deleted s os e) then show ?case by (simp add: on_deleted_markers)
next
  case (world s f) then show ?case by simp
qed

text \<open>
  Claim C9. The marker set only grows. \<open>on_moved\<close> and \<open>on_deleted\<close> leave it as it
  is. \<open>on_created\<close> leaves it as it is or adds exactly one path to it: the sidecar
  path it computed, and then a regular file stands at that path. This holds for the
  state a handler leaves when it returns and when an exception leaves it.
\<close>

theorem marker_set_only_grows:
  "system_created_txt_files s \<subseteq> system_created_txt_files (final (on_created os s e))
   \<and> (system_created_txt_files (final (on_created os s e)) = system_created_txt_files s
      \<or> (\<exists>t content. created_txt_path os s (src_path e) = Inr t
            \<and> system_created_txt_files (final (on_created os s e)) =
                insert t (system_created_txt_files s)
            \<and> fs (final (on_created os s e)) (resolve (cwd os) t) = Some (File content)))
   \<and> system_created_txt_files (final (on_moved os s m)) = system_created_txt_files s
   \<and> system_created_txt_files (final (on_deleted os s e')) = system_created_txt_files s"
  using on_created_markers[of os s e] by (auto simp: on_moved_markers on_deleted_markers)

theorem marker_set_only_grows_witness:
  "system_created_txt_files example_state = {}
   \<and> system_created_txt_files (final (on_created example_platform example_state clip_created))
       = {''/a/n/clip.txt''}
   \<and> system_created_txt_files
        (final (on_moved example_platform example_marked_state
           \<lparr>src_path = ''/w/n/clip.webm'', is_directory = False, dest_path = ''/w/clip2.webm''\<rparr>))
       = {''/a/n/clip.txt''}
   \<and> system_created_txt_files
        (final (on_deleted example_platform example_marked_state clip_created))
       = {''/a/n/clip.txt''}"
proof -
  have m: "system_created_txt_files example_marked_state = {''/a/n/clip.txt''}"
    by code_simp
  have "system_created_txt_files example_state = {}" by (simp add: example_state_def)
  moreover
  have "system_created_txt_files (final (on_created example_platform example_state clip_created))
          = {''/a/n/clip.txt''}"
    using m by (simp add: example_marked_state_def)
  moreover
  note marker_set_only_grows[of example_marked_state example_platform clip_created
      "\<lparr>src_path = ''/w/n/clip.webm'', is_directory = False, dest_path = ''/w/clip2.webm''\<rparr>"
      clip_created]
  ultimately show ?thesis using m by simp
qed

text \<open>
  Claim C8. In a state the handler can reach, a creation event for a path that is in the
  marker set prints nothing (no \<open>File added\<close> and no \<open>Ignored\<close> notice), leaves every
  regular file with the content it had and creates none, and leaves the marker set as
  it is. Paths in the marker set end in \<open>.txt\<close>, and NFC keeps that suffix.
\<close>

theorem self_created_notification_idempotent:
  assumes "reachable s"
    and "src_path e \<in> system_created_txt_files s"
    and "keeps_txt_suffix (normalize_NFC os)"
  shows "stdout (final (on_created os s e)) = stdout s
       \<and> (\<forall>k c. fs (final (on_created os s e)) k = Some (File c) \<longleftrightarrow> fs s k = Some (File c))
       \<and> system_created_txt_files (final (on_created os s e)) = system_created_txt_files s"
proof -
  have "endswith (src_path e) ''.txt''"
    using reachable_markers_txt[OF assms(1)] assms(2) by blast
  moreover have "sep \<notin> set ''.txt''" by (simp add: sep_def)
  ultimately have "endswith (basename (src_path e)) ''.txt''" by (rule suffix_basename)
  with assms(3) have istxt: "endswith (normalize_NFC os (basename (src_path e))) ''.txt''"
    by (simp add: keeps_txt_suffix_def)
  show ?thesis
  proof (cases "is_directory e")
    case True then show ?thesis by (simp add: on_created_def)
  next
    case nd: False
    show ?thesis
    proof (cases "created_txt_path os s (src_path e)")
      case (Inl err)
      then show ?thesis by (simp add: on_created_no_path)
    next
      case (Inr t)
      show ?thesis
      proof (cases "makedirs (cwd os) (fs s) (dirname t)")
        case (Inl err)
        then show ?thesis by (simp add: on_created_failed_makedirs[OF nd Inr])
      next
        case mk: (Inr f1)
        have "final (on_created os s e) = s\<lparr>fs := f1\<rparr>"
          unfolding on_created_unfold[OF nd Inr mk] using istxt assms(2) by simp
        then show ?thesis using makedirs_files[OF mk] by simp
      qed
    qed
  qed
qed

theorem self_created_notification_idempotent_witness:
  "sidecar_notified \<in> {e. src_path e \<in> system_created_txt_files example_marked_state}
   \<and> stdout (final (on_created example_platform example_marked_state sidecar_notified))
       = stdout example_marked_state
   \<and> fs (final (on_created example_platform example_marked_state sidecar_notified))
        [''a'', ''n'', ''clip.txt'']
       = fs example_marked_state [''a'', ''n'', ''clip.txt'']
   \<and> system_created_txt_files
        (final (on_created example_platform example_marked_state sidecar_notified))
       = {''/a/n/clip.txt''}"
proof -
  have h1: "reachable example_marked_state"
    unfolding example_marked_state_def
    by (rule reachable.created, rule reachable.start) (simp add: example_state_def)
  have m: "system_created_txt_files example_marked_state = {''/a/n/clip.txt''}"
    by code_simp
  have h2: "src_path sidecar_notified \<in> system_created_txt_files example_marked_state"
    by (simp add: m sidecar_notified_def)
  have h3: "keeps_txt_suffix (normalize_NFC example_platform)"
    by (simp add: keeps_txt_suffix_def example_platform_def)
  have "is_file (fs example_marked_state [''a'', ''n'', ''clip.txt''])"
    by code_simp
  then have c: "\<exists>c. fs example_marked_state [''a'', ''n'', ''clip.txt''] = Some (File c)"
    by (simp add: is_file_iff)
  then obtain c0 where c0: "fs example_marked_state [''a'', ''n'', ''clip.txt''] = Some (File c0)"
    by blast
  note r = self_created_notification_idempotent[OF h1 h2 h3]
  from r have a: "stdout (final (on_created example_platform example_marked_state sidecar_notified))
       = stdout example_marked_state" by (rule conjunct1)
  from r have b: "fs (final (on_created example_platform example_marked_state sidecar_notified))
        [''a'', ''n'', ''clip.txt''] = Some (File c0)
      \<longleftrightarrow> fs example_marked_state [''a'', ''n'', ''clip.txt''] = Some (File c0)"
    by blast
  from r have d: "system_created_txt_files
        (final (on_created example_platform example_marked_state sidecar_notified))
       = system_created_txt_files example_marked_state" by blast
  have "sidecar_notified \<in> {e. src_path e \<in> system_created_txt_files example_marked_state}"
    using h2 by simp
  moreover have "fs (final (on_created example_platform example_marked_state sidecar_notified))
        [''a'', ''n'', ''clip.txt''] = fs example_marked_state [''a'', ''n'', ''clip.txt'']"
    using b c0 by simp
  ultimately show ?thesis using a d m by simp
qed

lemma splitext_fst_set: "set (fst (splitext p)) \<subseteq> set p"
  by (auto simp: splitext_def Let_def dest: in_set_takeD)

lemma stem_sep_free:
  assumes "keeps_sep_free f" "sep \<notin> set n"
  shows "sep \<notin> set (f (fst (splitext (f n))))" "sep \<notin> set (f (fst (splitext n)))"
proof -
  have "sep \<notin> set (f n)" using assms by (simp add: keeps_sep_free_def)
  then have "sep \<notin> set (fst (splitext (f n)))" using splitext_fst_set by blast
  then show "sep \<notin> set (f (fst (splitext (f n))))" using assms(1) by (simp add: keeps_sep_free_def)
  have "sep \<notin> set (fst (splitext n))" using assms(2) splitext_fst_set by blast
  then show "sep \<notin> set (f (fst (splitext n)))" using assms(1) by (simp add: keeps_sep_free_def)
qed

lemma txt_name_plain: "sep \<notin> set x \<Longrightarrow> plain_name (x @ ''.txt'')"
  by (rule txt_plain) (simp_all add: endswith_def suffix_def sep_def)

text \<open>What the handlers compute for a path below the watched root.\<close>

lemma under_root_facts:
  assumes "isabs p" "path_list wd p = path_list wd root @ rel" "rel \<noteq> []"
  shows "relpath wd p root = Inr (join_str sep rel)"
    and "\<forall>x \<in> set rel. plain_name x"
    and "\<forall>x \<in> set (butlast rel). plain_name x"
    and "dirname (join_str sep rel) = join_str sep (butlast rel)"
    and "basename (join_str sep rel) = last rel"
    and "sep \<notin> set (last rel)"
proof -
  have "p \<noteq> []" using assms(1) by (auto simp: isabs_Cons)
  then show "relpath wd p root = Inr (join_str sep rel)"
    using assms(2,3) by (rule relpath_under)
  have "\<forall>x \<in> set (path_list wd p). plain_name x" using assms(1) by (rule path_list_plain)
  then show pl: "\<forall>x \<in> set rel. plain_name x" using assms(2) by simp
  then show "\<forall>x \<in> set (butlast rel). plain_name x" by (meson in_set_butlastD)
  show "dirname (join_str sep rel) = join_str sep (butlast rel)"
    "basename (join_str sep rel) = last rel"
    using dirname_basename_join_str[OF assms(3) pl] by simp_all
  show "sep \<notin> set (last rel)" using pl assms(3) by (simp add: plain_name_def)
qed

lemma under_root_basename:
  assumes "isabs p" "path_list wd p = path_list wd root @ rel" "rel \<noteq> []"
    "plain_name (basename p)"
  shows "last rel = basename p"
proof -
  have "path_list wd p = path_list wd (dirname p) @ [basename p]"
    using dir_base[OF assms(1,4)] by simp
  then have "last (path_list wd p) = basename p" by simp
  then show ?thesis using assms(2,3) by simp
qed





text \<open>
  Claim C6. A deletion event that is not a directory event, for a file below the source
  root (absolute event path and archive root, components of the source root followed by
  \<open>rel\<close>; NFC assumed to add no slash) whose normalised name does not end in
  \<open>.txt\<close> and whose sidecar exists as a regular file: \<open>on_deleted\<close> returns, the
  sidecar is removed, the three lines of the notice are printed, and nothing else
  changes: every other path of the filesystem, the marker set and the roots are as
  before.
\<close>

theorem deleting_source_file_removes_its_sidecar:
  assumes "\<not> is_directory e"
    and "isabs (src_path e)" and "isabs (archive_dir s)"
    and "path_list (cwd os) (src_path e) = path_list (cwd os) (watch_dir s) @ rel"
    and "rel \<noteq> []"
    and "keeps_sep_free (normalize_NFC os)"
    and "base_name = normalize_NFC os (last rel)"
    and "\<not> endswith base_name ''.txt''"
    and "target = path_list (cwd os) (archive_dir s) @ butlast rel
                    @ [normalize_NFC os (fst (splitext base_name)) @ ''.txt'']"
    and "fs s target = Some (File c)"
  shows "on_deleted os s e =
           Returned (s\<lparr>fs := (fs s)(target := None),
                       stdout := stdout s @ [''File deleted: '' @ base_name,
                                             ''Corresponding source file also deleted.'',
                                             border]\<rparr>)"
proof -
  note u = under_root_facts[OF assms(2,4,5)]
  define stem where "stem = normalize_NFC os (fst (splitext base_name))"
  define t where "t = join (archive_dir s) [join_str sep (butlast rel), stem @ ''.txt'']"
  have "sep \<notin> set stem"
    unfolding stem_def assms(7) using assms(6) u(6) by (rule stem_sep_free)
  then have pn: "plain_name (stem @ ''.txt'')" by (rule txt_name_plain)
  have r: "resolve (cwd os) t = target"
    unfolding t_def resolve_def assms(9) stem_def[symmetric]
    using assms(3) u(3) pn by (rule txt_path_resolve)
  have tn: "t \<noteq> []" using txt_path_facts(6)[OF assms(3) t_def] .
  have tne: "target \<noteq> []" using assms(9) by simp
  have ex: "path_exists (cwd os) (fs s) t"
    using tn assms(10) by (simp add: path_exists_def r)
  have rm: "os_remove (cwd os) (fs s) t = Inr ((fs s)(target := None))"
    using tn tne assms(10) by (simp add: os_remove_def r Let_def)
  show ?thesis
    using assms(1,8) ex rm
    by (simp add: on_deleted_def u(1,4,5) Let_def py_print_def
        assms(7)[symmetric] stem_def[symmetric] t_def[symmetric])
qed

theorem deleting_source_file_removes_its_sidecar_witness:
  "is_file (fs example_marked_state [''a'', ''n'', ''clip.txt''])
   \<and> on_deleted example_platform example_marked_state clip_created =
       Returned (example_marked_state
         \<lparr>fs := (fs example_marked_state)([''a'', ''n'', ''clip.txt''] := None),
          stdout := stdout example_marked_state
             @ [''File deleted: clip.webm'', ''Corresponding source file also deleted.'',
                border]\<rparr>)"
proof -
  have h1: "\<not> is_directory clip_created" by (simp add: clip_created_def)
  have h2: "isabs (src_path clip_created)" by code_simp
  have h3: "isabs (archive_dir example_marked_state)" by code_simp
  have h4: "path_list (cwd example_platform) (src_path clip_created)
      = path_list (cwd example_platform) (watch_dir example_marked_state)
          @ [''n'', ''clip.webm'']"
    by code_simp
  have h5: "[''n'', ''clip.webm''] \<noteq> []" by simp
  have h6: "keeps_sep_free (normalize_NFC example_platform)"
    by (simp add: keeps_sep_free_def example_platform_def)
  have h7: "''clip.webm'' = normalize_NFC example_platform (last [''n'', ''clip.webm''])"
    by code_simp
  have h8: "\<not> endswith ''clip.webm'' ''.txt''" by code_simp
  have h9: "[''a'', ''n'', ''clip.txt'']
      = path_list (cwd example_platform) (archive_dir example_marked_state)
          @ butlast [''n'', ''clip.webm'']
          @ [normalize_NFC example_platform (fst (splitext ''clip.webm'')) @ ''.txt'']"
    by code_simp
  have f: "is_file (fs example_marked_state [''a'', ''n'', ''clip.txt''])" by code_simp
  then obtain c where h10: "fs example_marked_state [''a'', ''n'', ''clip.txt''] = Some (File c)"
    by (auto simp: is_file_iff)
  show ?thesis
    using f deleting_source_file_removes_its_sidecar[OF h1 h2 h3 h4 h5 h6 h7 h8 h9 h10]
    by simp
qed

text \<open>
  Claim C7. A directory deletion event below the source root (absolute event path and
  archive root, components of the source root followed by \<open>rel\<close>): when the
  corresponding path below the archive root, the archive root followed by \<open>rel\<close>, is
  a directory, \<open>on_deleted\<close> removes it and every path below it in one step, prints
  the notice and changes nothing else; when nothing is there, the state is unchanged.
\<close>

theorem deleting_directory_removes_archive_subtree:
  assumes "is_directory e"
    and "isabs (src_path e)" and "isabs (archive_dir s)"
    and "path_list (cwd os) (src_path e) = path_list (cwd os) (watch_dir s) @ rel"
    and "rel \<noteq> []"
    and "target = path_list (cwd os) (archive_dir s) @ rel"
  shows "(fs s target = Some Dir \<longrightarrow>
            on_deleted os s e =
              Returned (s\<lparr>fs := (\<lambda>q. if prefix target q then None else fs s q),
                          stdout := stdout s @ [''Directory deleted: '' @ join_str sep rel,
                                                ''Corresponding source files also deleted.'',
                                                border]\<rparr>))
       \<and> (fs s target = None \<longrightarrow> on_deleted os s e = Returned s)"
proof -
  note u = under_root_facts[OF assms(2,4,5)]
  define t where "t = join (archive_dir s) [join_str sep rel]"
  have r: "resolve (cwd os) t = target"
    unfolding t_def resolve_def assms(6) using assms(3) u(2) by (rule dir_path_resolve)
  have "isabs t" unfolding t_def using assms(3) by (rule join_abs)
  then have tn: "t \<noteq> []" by (auto simp: isabs_Cons)
  have tne: "target \<noteq> []" using assms(5,6) by simp
  have unf: "on_deleted os s e =
      (if path_exists (cwd os) (fs s) t then
         (case rmtree (cwd os) (fs s) t of
            (Some err, fs') \<Rightarrow> Raised err (s\<lparr>fs := fs'\<rparr>)
          | (None, fs') \<Rightarrow>
              Returned
                (py_print border
                (py_print ''Corresponding source files also deleted.''
                (py_print (''Directory deleted: '' @ join_str sep rel)
                  (s\<lparr>fs := fs'\<rparr>)))))
       else Returned s)"
    using assms(1) by (simp add: on_deleted_def u(1) Let_def t_def)
  show ?thesis
  proof (intro conjI impI)
    assume a: "fs s target = Some Dir"
    then have "path_exists (cwd os) (fs s) t" using tn by (simp add: path_exists_def r)
    moreover have "rmtree (cwd os) (fs s) t
        = (None, (\<lambda>q. if prefix target q then None else fs s q))"
      using a tn tne by (simp add: rmtree_def r Let_def)
    ultimately show "on_deleted os s e =
              Returned (s\<lparr>fs := (\<lambda>q. if prefix target q then None else fs s q),
                          stdout := stdout s @ [''Directory deleted: '' @ join_str sep rel,
                                                ''Corresponding source files also deleted.'',
                                                border]\<rparr>)"
      unfolding unf by (simp add: py_print_def)
  next
    assume "fs s target = None"
    then have "\<not> path_exists (cwd os) (fs s) t" using tne by (simp add: path_exists_def r)
    then show "on_deleted os s e = Returned s" unfolding unf by simp
  qed
qed

theorem deleting_directory_removes_archive_subtree_witness:
  "fs example_marked_state [''a'', ''n''] = Some Dir
   \<and> on_deleted example_platform example_marked_state
        \<lparr>src_path = ''/w/n'', is_directory = True\<rparr> =
       Returned (example_marked_state
         \<lparr>fs := (\<lambda>q. if prefix [''a'', ''n''] q then None else fs example_marked_state q),
          stdout := stdout example_marked_state
             @ [''Directory deleted: n'', ''Corresponding source files also deleted.'',
                border]\<rparr>)
   \<and> fs example_state [''a'', ''n''] = None
   \<and> on_deleted example_platform example_state \<lparr>src_path = ''/w/n'', is_directory = True\<rparr>
       = Returned example_state"
proof -
  define e where "e = \<lparr>src_path = ''/w/n'', is_directory = True\<rparr>"
  have h1: "is_directory e" by (simp add: e_def)
  have h2: "isabs (src_path e)" unfolding e_def by code_simp
  have h3: "isabs (archive_dir example_marked_state)" by code_simp
  have h3': "isabs (archive_dir example_state)" by code_simp
  have h4: "path_list (cwd example_platform) (src_path e)
      = path_list (cwd example_platform) (watch_dir example_marked_state) @ [''n'']"
    unfolding e_def by code_simp
  have h4': "path_list (cwd example_platform) (src_path e)
      = path_list (cwd example_platform) (watch_dir example_state) @ [''n'']"
    unfolding e_def by code_simp
  have h5: "[''n''] \<noteq> []" by simp
  have h6: "[''a'', ''n'']
      = path_list (cwd example_platform) (archive_dir example_marked_state) @ [''n'']"
    by code_simp
  have h6': "[''a'', ''n'']
      = path_list (cwd example_platform) (archive_dir example_state) @ [''n'']"
    by code_simp
  have d: "fs example_marked_state [''a'', ''n''] = Some Dir" by code_simp
  have n: "fs example_state [''a'', ''n''] = None" by code_simp
  have j: "join_str sep [''n''] = ''n''" by simp
  show ?thesis
    using d n j
      deleting_directory_removes_archive_subtree[OF h1 h2 h3 h4 h5 h6]
      deleting_directory_removes_archive_subtree[OF h1 h2 h3' h4' h5 h6']
    by (simp add: e_def)
qed

section \<open>The sidecar record\<close>











section \<open>Moving a source file\<close>

lemma moved_txt_path_Inr:
  assumes "moved_txt_path os s p = Inr t"
  obtains rel where "relpath (cwd os) p (watch_dir s) = Inr rel"
    "t = join (archive_dir s)
           [dirname rel, normalize_NFC os (fst (splitext (basename rel))) @ ''.txt'']"
  using assms by (auto simp: moved_txt_path_def split: sum.splits)

lemma moved_txt_path_facts:
  assumes "isabs (archive_dir s)" "moved_txt_path os s p = Inr t"
  shows "dirname t \<noteq> []" "t \<noteq> []"
    "resolve wd t = resolve wd (dirname t) @ [basename t]"
proof -
  from assms(2) obtain rel where
    t: "t = join (archive_dir s)
           [dirname rel, normalize_NFC os (fst (splitext (basename rel))) @ ''.txt'']"
    by (rule moved_txt_path_Inr)
  show "dirname t \<noteq> []" "t \<noteq> []"
    "resolve wd t = resolve wd (dirname t) @ [basename t]"
    using txt_path_facts[OF assms(1) t] by blast+
qed

lemma on_moved_unfold:
  assumes "\<not> is_directory m"
    and "moved_txt_path os s (src_path m) = Inr old"
    and "moved_txt_path os s (dest_path m) = Inr new"
  shows "on_moved os s m =
     (if path_exists (cwd os) (fs s) old then
        (case makedirs (cwd os) (fs s) (dirname new) of
           Inl err \<Rightarrow> Raised err s
         | Inr f1 \<Rightarrow>
             (case shutil_move (cwd os) f1 old new of
                Inl err \<Rightarrow> Raised err (s\<lparr>fs := f1\<rparr>)
              | Inr f2 \<Rightarrow> Returned (s\<lparr>fs := f2\<rparr>)))
      else Returned s)"
proof -
  from assms(2) obtain r1 where r1: "relpath (cwd os) (src_path m) (watch_dir s) = Inr r1"
    "old = join (archive_dir s)
           [dirname r1, normalize_NFC os (fst (splitext (basename r1))) @ ''.txt'']"
    by (rule moved_txt_path_Inr)
  from assms(3) obtain r2 where r2: "relpath (cwd os) (dest_path m) (watch_dir s) = Inr r2"
    "new = join (archive_dir s)
           [dirname r2, normalize_NFC os (fst (splitext (basename r2))) @ ''.txt'']"
    by (rule moved_txt_path_Inr)
  show ?thesis unfolding r1(2) r2(2) using assms(1) r1(1) r2(1)
    by (simp add: on_moved_def Let_def)
qed

text \<open>
  Claim C4, as amended. Take a move event that is not a directory event, with both
  sidecar paths computed and an absolute archive root. If a regular file stands at the
  old computed path, no directory stands at the new computed path, and the parent
  directories of the new path can be created, then \<open>on_moved\<close> returns a state in
  which those parent directories exist, the new path holds the file with the content
  it had, the old path is gone (unless both are the same path), and nothing else has
  changed. If nothing exists at the old computed path, the state is unchanged and no
  exception leaves the handler.
\<close>

theorem sidecar_follows_moved_file:
  assumes "\<not> is_directory m"
    and "isabs (archive_dir s)"
    and "moved_txt_path os s (src_path m) = Inr old"
    and "moved_txt_path os s (dest_path m) = Inr new"
  shows "(fs s (resolve (cwd os) old) = Some (File c)
          \<and> creatable (fs s) (resolve (cwd os) (dirname new))
          \<and> fs s (resolve (cwd os) new) \<noteq> Some Dir
          \<longrightarrow> on_moved os s m =
                Returned (s\<lparr>fs :=
                  ((\<lambda>q. if q \<noteq> [] \<and> prefix q (resolve (cwd os) (dirname new))
                         then Some Dir else fs s q)
                     (resolve (cwd os) old := None))
                     (resolve (cwd os) new \<mapsto> File c)\<rparr>))
       \<and> (\<not> path_exists (cwd os) (fs s) old \<longrightarrow> on_moved os s m = Returned s)"
proof (intro conjI impI)
  assume "\<not> path_exists (cwd os) (fs s) old"
  then show "on_moved os s m = Returned s"
    unfolding on_moved_unfold[OF assms(1,3,4)] by simp
next
  assume a: "fs s (resolve (cwd os) old) = Some (File c)
          \<and> creatable (fs s) (resolve (cwd os) (dirname new))
          \<and> fs s (resolve (cwd os) new) \<noteq> Some Dir"
  define ko where "ko = resolve (cwd os) old"
  define kn where "kn = resolve (cwd os) new"
  define dk where "dk = resolve (cwd os) (dirname new)"
  define f1 where "f1 = (\<lambda>q. if q \<noteq> [] \<and> prefix q dk then Some Dir else fs s q)"
  note fo = moved_txt_path_facts[OF assms(2,3)]
  note fn = moved_txt_path_facts[OF assms(2,4)]
  have kn: "kn = dk @ [basename new]" using fn(3)[of "cwd os"] by (simp add: kn_def dk_def)
  have kon: "ko \<noteq> []" using fo(3)[of "cwd os"] by (simp add: ko_def)
  have knn: "kn \<noteq> []" using kn by simp
  have ex: "path_exists (cwd os) (fs s) old"
    using a fo(2) by (simp add: path_exists_def)
  have mk: "makedirs (cwd os) (fs s) (dirname new) = Inr f1"
    unfolding f1_def dk_def using fn(1) a by (simp add: makedirs_ok)
  have "\<not> (prefix ko dk)"
  proof
    assume p: "prefix ko dk"
    from a have cr: "creatable (fs s) dk" by (simp add: dk_def)
    have "\<not> is_file (fs s ko)" using cr p by (rule creatable_prefix)
    with a show False by (simp add: ko_def)
  qed
  then have f1o: "f1 ko = Some (File c)" using a by (simp add: f1_def ko_def)
  have "\<not> prefix kn dk" unfolding kn by (rule not_prefix_snoc)
  then have f1n: "f1 kn \<noteq> Some Dir" using a by (simp add: f1_def kn_def)
  have nd: "\<not> path_isdir (cwd os) f1 new"
    using f1n knn by (simp add: path_isdir_def dir_at_def kn_def)
  have pa: "dir_at f1 (butlast kn)" by (simp add: kn dir_at_def f1_def)
  have "rename_node f1 ko kn = Inr ((f1(ko := None))(kn \<mapsto> File c))"
    using kon knn f1o f1n pa by (simp add: rename_node_def)
  then have "shutil_move (cwd os) f1 old new = Inr ((f1(ko := None))(kn \<mapsto> File c))"
    using nd fo(2) fn(2) by (simp add: shutil_move_def ko_def kn_def)
  then show "on_moved os s m =
                Returned (s\<lparr>fs :=
                  ((\<lambda>q. if q \<noteq> [] \<and> prefix q (resolve (cwd os) (dirname new))
                         then Some Dir else fs s q)
                     (resolve (cwd os) old := None))
                     (resolve (cwd os) new \<mapsto> File c)\<rparr>)"
    unfolding on_moved_unfold[OF assms(1,3,4)] using ex mk
    by (simp add: f1_def dk_def ko_def kn_def)
qed

theorem sidecar_follows_moved_file_witness:
  "moved_txt_path example_platform example_marked_state (src_path clip_moved)
     = Inr ''/a/n/clip.txt''
   \<and> moved_txt_path example_platform example_marked_state (dest_path clip_moved)
     = Inr ''/a/m/film.txt''
   \<and> is_file (fs example_marked_state [''a'', ''n'', ''clip.txt''])
   \<and> fs (final (on_moved example_platform example_marked_state clip_moved))
        [''a'', ''m'', ''film.txt'']
     = fs example_marked_state [''a'', ''n'', ''clip.txt'']
   \<and> fs (final (on_moved example_platform example_marked_state clip_moved))
        [''a'', ''n'', ''clip.txt''] = None
   \<and> on_moved example_platform example_state clip_moved = Returned example_state"
proof -
  have h1: "\<not> is_directory clip_moved" by (simp add: clip_moved_def)
  have h2: "isabs (archive_dir example_marked_state)" by code_simp
  have h2': "isabs (archive_dir example_state)" by code_simp
  have h3: "moved_txt_path example_platform example_marked_state (src_path clip_moved)
     = Inr ''/a/n/clip.txt''" by code_simp
  have h4: "moved_txt_path example_platform example_marked_state (dest_path clip_moved)
     = Inr ''/a/m/film.txt''" by code_simp
  have h3': "moved_txt_path example_platform example_state (src_path clip_moved)
     = Inr ''/a/n/clip.txt''" by code_simp
  have h4': "moved_txt_path example_platform example_state (dest_path clip_moved)
     = Inr ''/a/m/film.txt''" by code_simp
  have ko: "resolve (cwd example_platform) ''/a/n/clip.txt'' = [''a'', ''n'', ''clip.txt'']"
    by code_simp
  have kn: "resolve (cwd example_platform) ''/a/m/film.txt'' = [''a'', ''m'', ''film.txt'']"
    by code_simp
  have f: "is_file (fs example_marked_state [''a'', ''n'', ''clip.txt''])" by code_simp
  then obtain c where c: "fs example_marked_state [''a'', ''n'', ''clip.txt''] = Some (File c)"
    by (auto simp: is_file_iff)
  have cr: "creatable (fs example_marked_state)
              (resolve (cwd example_platform) (dirname ''/a/m/film.txt''))"
    by code_simp
  have nd: "fs example_marked_state [''a'', ''m'', ''film.txt''] \<noteq> Some Dir" by code_simp
  have ne: "\<not> path_exists (cwd example_platform) (fs example_state) ''/a/n/clip.txt''"
    by code_simp
  have "on_moved example_platform example_marked_state clip_moved =
      Returned (example_marked_state\<lparr>fs :=
        ((\<lambda>q. if q \<noteq> [] \<and> prefix q (resolve (cwd example_platform) (dirname ''/a/m/film.txt''))
               then Some Dir else fs example_marked_state q)
           ([''a'', ''n'', ''clip.txt''] := None))
           ([''a'', ''m'', ''film.txt''] \<mapsto> File c)\<rparr>)"
    using sidecar_follows_moved_file[OF h1 h2 h3 h4, of c] c cr nd by (simp add: ko kn)
  moreover have "on_moved example_platform example_state clip_moved = Returned example_state"
    using sidecar_follows_moved_file[OF h1 h2' h3' h4'] ne by simp
  ultimately show ?thesis using h3 h4 f c by simp
qed

text \<open>
  The claim without the amendment fails: \<open>shutil.move\<close> moves its source into the
  destination when the destination is an existing directory. Here a directory stands
  at the new computed path \<open>/a/b.txt\<close>; after the handler it is still a directory,
  and the sidecar of \<open>a.mp4\<close> is inside it, at \<open>/a/b.txt/a.txt\<close>.
\<close>

theorem sidecar_moved_into_directory_counterexample:
  "\<not> is_directory a_renamed_to_b
   \<and> moved_txt_path example_platform example_move_state (src_path a_renamed_to_b)
       = Inr ''/a/a.txt''
   \<and> moved_txt_path example_platform example_move_state (dest_path a_renamed_to_b)
       = Inr ''/a/b.txt''
   \<and> fs example_move_state (resolve ''/'' ''/a/a.txt'') = Some (File ''notes on a'')
   \<and> fs (final (on_moved example_platform example_move_state a_renamed_to_b))
        (resolve ''/'' ''/a/b.txt'') = Some Dir
   \<and> fs (final (on_moved example_platform example_move_state a_renamed_to_b))
        (resolve ''/'' ''/a/b.txt/a.txt'') = Some (File ''notes on a'')
   \<and> fs example_move_state (resolve ''/'' ''/a/b.txt/a.txt'') = None"
  by code_simp

section \<open>Deleting a sidecar\<close>

text \<open>
  Claim C2. The comment above the loop in \<open>on_deleted\<close> says that deleting a
  \<open>.txt\<close> file in the archive directory deletes the corresponding file in the watch
  directory. The candidates are built from the path of the event relative to the watch
  directory, though, so for an event in the archive tree they lead back into the archive
  tree: with \<open>/w/video.mp4\<close> and \<open>/w/video.mov\<close> present, the deletion of
  \<open>/a/video.txt\<close> probes \<open>/w/../a/video.mp4\<close> and its siblings, finds nothing,
  removes nothing and prints nothing.
\<close>

theorem reverse_deletion_probes_archive_tree:
  "relpath ''/'' (src_path video_sidecar_deleted) (watch_dir example_state)
     = Inr ''../a/video.txt''
   \<and> join (watch_dir example_state) [dirname ''../a/video.txt'', ''video'' @ ''.mp4'']
     = ''/w/../a/video.mp4''
   \<and> resolve ''/'' ''/w/../a/video.mp4'' = [''a'', ''video.mp4'']
   \<and> fs example_state [''w'', ''video.mp4''] = Some (File ''mp4 bytes'')
   \<and> fs (final (on_deleted example_platform example_state video_sidecar_deleted))
        [''w'', ''video.mp4''] = Some (File ''mp4 bytes'')
   \<and> fs (final (on_deleted example_platform example_state video_sidecar_deleted))
        [''w'', ''video.mov''] = Some (File ''mov bytes'')
   \<and> stdout (final (on_deleted example_platform example_state video_sidecar_deleted)) = []"
  by code_simp

lemma probe_none:
  assumes "\<forall>y \<in> set exts.
     \<not> path_exists (cwd os) (fs s) (join (watch_dir s) [dirname rel, name @ y])"
  shows "probe_extensions os s rel base name exts = Returned s"
  using assms by (induction exts) (simp_all add: Let_def)

text \<open>
  What the loop itself does with the candidates it is given: the first one that exists
  as a regular file is removed, the three lines of the notice are printed, and the loop
  is left, so no later candidate is touched; when no candidate exists the state is
  unchanged (lemma \<open>probe_none\<close>).
\<close>

theorem probe_removes_first_existing_candidate:
  assumes "exts = pre @ x # post"
    and "\<forall>y \<in> set pre.
           \<not> path_exists (cwd os) (fs s) (join (watch_dir s) [dirname rel, name @ y])"
    and "candidate = join (watch_dir s) [dirname rel, name @ x]"
    and "candidate \<noteq> []" and "resolve (cwd os) candidate \<noteq> []"
    and "fs s (resolve (cwd os) candidate) = Some (File c)"
  shows "probe_extensions os s rel base name exts =
           Returned (s\<lparr>fs := (fs s)(resolve (cwd os) candidate := None),
                       stdout := stdout s @ [''File deleted: '' @ base,
                                             ''Watch file also deleted: '' @ name @ x,
                                             border]\<rparr>)"
  using assms(2) unfolding assms(1)
proof (induction pre)
  case Nil
  have "path_exists (cwd os) (fs s) candidate"
    using assms(4,6) by (simp add: path_exists_def)
  moreover have "os_remove (cwd os) (fs s) candidate
      = Inr ((fs s)(resolve (cwd os) candidate := None))"
    using assms(4,5,6) by (simp add: os_remove_def Let_def)
  ultimately have "probe_extensions os s rel base name (x # post) =
      Returned (py_print border
               (py_print (''Watch file also deleted: '' @ name @ x)
               (py_print (''File deleted: '' @ base)
                 (s\<lparr>fs := (fs s)(resolve (cwd os) candidate := None)\<rparr>))))"
    by (simp add: Let_def assms(3)[symmetric])
  moreover have "py_print border
               (py_print (''Watch file also deleted: '' @ name @ x)
               (py_print (''File deleted: '' @ base)
                 (s\<lparr>fs := (fs s)(resolve (cwd os) candidate := None)\<rparr>)))
      = s\<lparr>fs := (fs s)(resolve (cwd os) candidate := None),
           stdout := stdout s @ [''File deleted: '' @ base,
                                 ''Watch file also deleted: '' @ name @ x,
                                 border]\<rparr>"
    by (simp add: py_print_def)
  ultimately show ?case by (simp only: append_Nil)
next
  case (Cons y pre)
  then show ?case by (simp add: Let_def)
qed

theorem probe_removes_first_existing_candidate_witness:
  "probe_extensions example_platform example_state ''video.txt'' ''video.txt'' ''video''
     possible_extensions =
   Returned (example_state\<lparr>fs := (fs example_state)([''w'', ''video.mp4''] := None),
       stdout := [''File deleted: video.txt'', ''Watch file also deleted: video.mp4'',
                  border]\<rparr>)
   \<and> fs example_state [''w'', ''video.mov''] = Some (File ''mov bytes'')"
proof -
  have h1: "possible_extensions = [] @ ''.mp4'' # tl possible_extensions"
    by (simp add: possible_extensions_def)
  have h2: "\<forall>y \<in> set ([]::string list).
           \<not> path_exists (cwd example_platform) (fs example_state)
                (join (watch_dir example_state) [dirname ''video.txt'', ''video'' @ y])"
    by simp
  have h3: "''/w/video.mp4''
      = join (watch_dir example_state) [dirname ''video.txt'', ''video'' @ ''.mp4'']"
    by code_simp
  have h4: "''/w/video.mp4'' \<noteq> []" by simp
  have k: "resolve (cwd example_platform) ''/w/video.mp4'' = [''w'', ''video.mp4'']"
    by code_simp
  have h5: "resolve (cwd example_platform) ''/w/video.mp4'' \<noteq> []" by (simp add: k)
  have h6: "fs example_state (resolve (cwd example_platform) ''/w/video.mp4'')
      = Some (File ''mp4 bytes'')"
    by (simp add: k example_state_def)
  have "stdout example_state = []" by (simp add: example_state_def)
  moreover have "fs example_state [''w'', ''video.mov''] = Some (File ''mov bytes'')"
    by (simp add: example_state_def)
  ultimately show ?thesis
    using probe_removes_first_existing_candidate[OF h1 h2 h3 h4 h5 h6, of "''video.txt''"]
    by (simp add: k)
qed

end
